theory Spec2Isabelle
  imports Main "HOL-Library.Char_ord" "HOL-Library.List_Lexorder"
begin

section \<open>The grammar model of sebnf2pars (ebnfClasses.hh)\<close>

text \<open>
  The generator keeps its productions in one global list. A pointer to a production is
  modelled as the position of that production in the list (\<open>None\<close> is the null pointer);
  a linked list of the source is a HOL list. The token codes that serve as \<open>theType\<close>
  of an expression are the integers the generated parser header defines.
\<close>

abbreviation KEYWORD :: int where "KEYWORD \<equiv> 260"
abbreviation NONTERMINAL :: int where "NONTERMINAL \<equiv> 262"
abbreviation ONECHAR :: int where "ONECHAR \<equiv> 263"
abbreviation TERMINAL :: int where "TERMINAL \<equiv> 266"
abbreviation TERMINALSTRING :: int where "TERMINALSTRING \<equiv> 267"
abbreviation TWOCHAR :: int where "TWOCHAR \<equiv> 268"

record expression =
  theType :: int
  itemName :: string
  prodValue :: "nat option"

type_synonym defn = "expression list"

record production =
  ancestors :: "nat list"
  attNames :: "string list"
  beInstance :: "nat option"
  defs :: "defn list"
  isInstance :: bool
  isList :: int
  isOptional :: int
  isSupertype :: bool
  lhs :: string
  myAtts :: "string list"
  myExps :: "expression list"
  optProd :: "nat option"
  subtypeOf :: "nat list"
  transferName :: "string option"
  wasPrinted :: bool

subsection \<open>List classification (production::findIsList)\<close>

text \<open>
  The source returns at the first test that fails; every \<open>hd\<close> and \<open>last\<close> below is
  reached only after the length test that makes the list non-empty, as every
  \<open>first\<close> and \<open>last\<close> pointer of the source is.
\<close>

definition findIsList :: "string \<Rightarrow> defn list \<Rightarrow> int" where
  "findIsList lhsIn ds =
     (if length ds = 2 then
        (if length (hd ds) = 1 then
           (let len = length (last ds) in
            if len = 2 \<or> len = 3 then
              (if lhsIn = itemName (hd (last ds)) then
                 (if itemName (hd (hd ds)) = itemName (last (last ds)) then
                    (if len = 3 then
                       (if itemName (hd (tl (last ds))) = ''c'' then 2 else 0)
                     else 1)
                  else 0)
               else 0)
            else 0)
         else 0)
      else 0)"

text \<open>The constructor \<open>production::production(lhsIn, defsIn)\<close>.\<close>

definition newProduction :: "string \<Rightarrow> defn list \<Rightarrow> production" where
  "newProduction lhsIn defsIn =
     \<lparr> ancestors = [], attNames = [], beInstance = None, defs = defsIn,
       isInstance = False, isList = findIsList lhsIn defsIn, isOptional = 0,
       isSupertype = False, lhs = lhsIn, myAtts = [], myExps = [], optProd = None,
       subtypeOf = [], transferName = None, wasPrinted = False \<rparr>"


subsection \<open>What the parser builds (the actions of yyparse)\<close>

text \<open>
  One expression object, \<open>commaExp\<close>, stands for every nonterminal spelled \<open>c\<close>. It is
  shared by all definitions that use it; since the production named \<open>c\<close> is never put
  on the productions list, no pass ever writes to it, and the model may copy it.
\<close>

definition commaExp :: expression where
  "commaExp = \<lparr> theType = 0, itemName = ''c'', prodValue = None \<rparr>"

text \<open>Actions 15 to 20: a token of the grammar file, given as its code and its text.\<close>

definition newExpression :: "int \<times> string \<Rightarrow> expression" where
  "newExpression tok =
     (if fst tok = NONTERMINAL \<and> snd tok = ''c'' then commaExp
      else \<lparr> theType = fst tok, itemName = snd tok, prodValue = None \<rparr>)"

type_synonym rule = "string \<times> (int \<times> string) list list"

text \<open>
  Actions 3 to 5: every rule becomes a production, in the order of the file, except the
  rule that defines \<open>c\<close>.
\<close>

definition yyparse :: "rule list \<Rightarrow> production list" where
  "yyparse rules =
     map (\<lambda>r. newProduction (fst r) (map (map newExpression) (snd r)))
       (filter (\<lambda>r. fst r \<noteq> ''c'') rules)"

subsection \<open>Binding (expList::setProdValue, findProdValueOne, findProdValueAll)\<close>

definition setProdValue :: "nat \<Rightarrow> string \<Rightarrow> expression list \<Rightarrow> expression list" where
  "setProdValue prd prodLhs exps =
     map (\<lambda>e. if itemName e = prodLhs then e\<lparr>prodValue := Some prd\<rparr> else e) exps"

text \<open>
  The loop of findProdValueOne over the users of \<open>prod\<close>: \<open>u\<close> is the position of the
  user at the head of the remaining list. The production itself is passed over.
\<close>

fun userLoop :: "nat \<Rightarrow> string \<Rightarrow> nat \<Rightarrow> production list \<Rightarrow> production list" where
  "userLoop prd prodLhs u [] = []"
| "userLoop prd prodLhs u (user # rest) =
     (if u = prd then user
      else user\<lparr>defs := map (setProdValue prd prodLhs) (defs user)\<rparr>)
     # userLoop prd prodLhs (Suc u) rest"

definition findProdValueOne :: "production list \<Rightarrow> nat \<Rightarrow> production list" where
  "findProdValueOne ps prd = userLoop prd (lhs (ps ! prd)) 0 ps"

definition findProdValueAll :: "production list \<Rightarrow> production list" where
  "findProdValueAll ps = fold (\<lambda>prd st. findProdValueOne st prd) [0..<length ps] ps"

subsection \<open>Assignment through a pointer\<close>

text \<open>
  An assignment through a pointer to a production, \<open>p->field = v\<close>, changes the
  production at that position of the list.
\<close>

definition modify :: "nat \<Rightarrow> (production \<Rightarrow> production) \<Rightarrow> production list \<Rightarrow> production list" where
  "modify p g st = st[p := g (st ! p)]"

subsection \<open>Supertypes (findSupertypes)\<close>

text \<open>
  The first loop over the definitions of \<open>prod\<close> stops at a definition that is not a
  single nonterminal bound to a production that is not a list; the production is a
  supertype when the loop runs to the end.
\<close>

definition isSubtypeDef :: "production list \<Rightarrow> defn \<Rightarrow> bool" where
  "isSubtypeDef ps d =
     (length d = 1 \<and> theType (hd d) = NONTERMINAL \<and>
      (case prodValue (hd d) of None \<Rightarrow> False | Some q \<Rightarrow> isList (ps ! q) = 0))"

definition markInstance :: "nat \<Rightarrow> production list \<Rightarrow> production list" where
  "markInstance sub st = modify sub (\<lambda>p. p\<lparr>isInstance := True\<rparr>) st"

definition addSupertype :: "nat \<Rightarrow> nat \<Rightarrow> production list \<Rightarrow> production list" where
  "addSupertype prd sub st = modify sub (\<lambda>p. p\<lparr>subtypeOf := subtypeOf p @ [prd]\<rparr>) st"

definition findSupertypesOne :: "production list \<Rightarrow> nat \<Rightarrow> production list" where
  "findSupertypesOne st prd =
     (if list_all (isSubtypeDef st) (defs (st ! prd)) then
        (let st1 = modify prd (\<lambda>p. p\<lparr>isSupertype := True\<rparr>) st;
             subs = map (\<lambda>d. the (prodValue (hd d))) (defs (st ! prd))
         in if lhs (st ! prd) = ''instance'' then fold markInstance subs st1
            else fold (addSupertype prd) subs st1)
      else st)"

definition findSupertypes :: "production list \<Rightarrow> production list" where
  "findSupertypes ps = fold (\<lambda>prd st. findSupertypesOne st prd) [0..<length ps] ps"

subsection \<open>Ancestors (findAncestors, findAllAncestors)\<close>

text \<open>
  findAncestors calls itself inside its loop over a subtypeOf list and adds to one
  shared list. The model keeps the cells still to visit of all the loops in progress in
  one list, those of the innermost call first, which is the order in which the source
  visits them. The null test on \<open>super\<close> is the test that the position is one of the
  list.
\<close>

function findAncestors :: "production list \<Rightarrow> nat list \<Rightarrow> nat list \<Rightarrow> nat list" where
  "findAncestors ps [] ancesti = ancesti"
| "findAncestors ps (super # cells) ancesti =
     (if super < length ps \<and> super \<notin> set ancesti \<and>
         isOptional (ps ! super) \<noteq> 1 \<and> isOptional (ps ! super) \<noteq> 2
      then findAncestors ps (subtypeOf (ps ! super) @ cells) (ancesti @ [super])
      else findAncestors ps cells ancesti)"
  by pat_completeness auto
termination
proof (relation "measures [\<lambda>(ps, cells, ancesti). card ({..<length ps} - set ancesti),
                           \<lambda>(ps, cells, ancesti). length cells]", goal_cases)
  case 1
  show ?case by simp
next
  case (2 ps super cells ancesti)
  then have "{..<length ps} - set (ancesti @ [super]) \<subset> {..<length ps} - set ancesti"
    by auto
  then have "card ({..<length ps} - set (ancesti @ [super]))
             < card ({..<length ps} - set ancesti)"
    by (intro psubset_card_mono) auto
  then show ?case by simp
next
  case 3
  show ?case by simp
qed

definition findAllAncestors :: "production list \<Rightarrow> production list" where
  "findAllAncestors ps =
     fold (\<lambda>prd st.
             modify prd (\<lambda>p. p\<lparr>ancestors := findAncestors st (subtypeOf p) (ancestors p)\<rparr>) st)
       [0..<length ps] ps"

subsection \<open>Instances below a production (findBeInstance)\<close>

definition setBeInstance :: "nat \<Rightarrow> nat \<Rightarrow> production list \<Rightarrow> production list" where
  "setBeInstance sub super st =
     (if beInstance (st ! super) = None then modify super (\<lambda>p. p\<lparr>beInstance := Some sub\<rparr>) st
      else st)"

definition findBeInstanceOne :: "production list \<Rightarrow> nat \<Rightarrow> production list" where
  "findBeInstanceOne st sub =
     (if isInstance (st ! sub) then fold (setBeInstance sub) (ancestors (st ! sub)) st else st)"

definition findBeInstance :: "production list \<Rightarrow> production list" where
  "findBeInstance ps = fold (\<lambda>sub st. findBeInstanceOne st sub) [0..<length ps] ps"


subsection \<open>Fatal diagnostics\<close>

text \<open>
  Every diagnostic of the analysis ends the program (\<open>exit(1)\<close>). Reading through a
  null pointer and writing past the end of a buffer have no defined behaviour in the
  source; the model makes them results of their own, \<open>NullDereference\<close> and
  \<open>BufferOverrun\<close>, which are none of the program's diagnostics.
\<close>

datatype error =
    NotEnoughExpressions string
  | NotEnoughAttNames string
  | AttributeNamesDiffer string string string
  | NoTransferName string
  | LoopInProductions
  | BadTokenSpelling
  | NoSuchProduction string
  | NoStartAttributes
  | NoEndAttributes
  | NullDereference
  | BufferOverrun

text \<open>A loop over a list that stops at the first fatal result.\<close>

fun foldE :: "('a \<Rightarrow> 's \<Rightarrow> error + 's) \<Rightarrow> 'a list \<Rightarrow> 's \<Rightarrow> error + 's" where
  "foldE f [] s = Inr s"
| "foldE f (x # xs) s = (case f x s of Inl e \<Rightarrow> Inl e | Inr s' \<Rightarrow> foldE f xs s')"

subsection \<open>Optional productions (findOptProds, findTransferName)\<close>

definition findTransferName :: "production list \<Rightarrow> nat \<Rightarrow> nat \<Rightarrow> error + production list" where
  "findTransferName st parent child =
     (case find (\<lambda>prd. child \<in> set (ancestors (st ! prd)) \<and> isInstance (st ! prd))
             [0..<length st] of
        Some prd \<Rightarrow> Inr (modify parent (\<lambda>p. p\<lparr>transferName := Some (lhs (st ! prd))\<rparr>) st)
      | None \<Rightarrow> Inl (NoTransferName (lhs (st ! parent))))"

text \<open>
  The test findOptProds makes on a production: two definitions, one expression in the
  first and in the last, the first one bound to a production, the last one the single
  character \<open>$\<close>.
\<close>

definition isOptParent :: "production \<Rightarrow> bool" where
  "isOptParent parent =
     (length (defs parent) = 2 \<and>
      length (hd (defs parent)) = 1 \<and>
      length (last (defs parent)) = 1 \<and>
      prodValue (hd (hd (defs parent))) \<noteq> None \<and>
      theType (hd (last (defs parent))) = ONECHAR \<and>
      itemName (hd (last (defs parent))) = ''$'')"

text \<open>The production the first expression of the first definition is bound to.\<close>

definition childOf :: "production \<Rightarrow> nat" where
  "childOf parent = the (prodValue (hd (hd (defs parent))))"

definition findOptProdsOne :: "nat \<Rightarrow> production list \<Rightarrow> error + production list" where
  "findOptProdsOne parent st =
     (if isOptParent (st ! parent) then
        (let child = childOf (st ! parent);
             st1 = modify child (\<lambda>p. p\<lparr>isOptional := 3, optProd := Some parent\<rparr>) st;
             st2 = modify parent (\<lambda>p. p\<lparr>optProd := Some child\<rparr>) st1
         in if isInstance (st2 ! child) then
              Inr (modify parent
                     (\<lambda>p. p\<lparr>isOptional := 1, transferName := Some (lhs (st2 ! child))\<rparr>) st2)
            else if beInstance (st2 ! child) \<noteq> None then
              findTransferName (modify parent (\<lambda>p. p\<lparr>isOptional := 1\<rparr>) st2) parent child
            else
              Inr (modify parent
                     (\<lambda>p. p\<lparr>isOptional := 2, transferName := Some (lhs (st2 ! child))\<rparr>) st2))
      else Inr st)"

definition findOptProds :: "production list \<Rightarrow> error + production list" where
  "findOptProds ps = foldE findOptProdsOne [0..<length ps] ps"

subsection \<open>Attribute names (findAttNamesOne, findAttNamesAll)\<close>

text \<open>
  findAttNamesOne walks down the supertype tree and does not return when the tree has
  a loop, so the model counts the depth of the calls down from \<open>fuel\<close> and has the
  result \<open>None\<close> when the count is used up. The argument \<open>front\<close> of the source always
  points at the attNames of \<open>super\<close>, so the model reads it there. The remaining
  definitions of \<open>super\<close> are the third argument.
\<close>

fun findAttNamesOne :: "nat \<Rightarrow> nat \<Rightarrow> defn list \<Rightarrow> production list
    \<Rightarrow> (error + production list) option" where
  "findAttNamesOne fuel super [] st = Some (Inr st)"
| "findAttNamesOne fuel super (d # ds) st =
     (case d of
        [] \<Rightarrow> Some (Inl NullDereference)
      | e # es \<Rightarrow>
         (case prodValue e of
            None \<Rightarrow> Some (Inl NullDereference)
          | Some sub \<Rightarrow>
             (let st1 = (if attNames (st ! sub) = []
                         then modify sub
                                (\<lambda>p. p\<lparr>attNames := attNames (st ! super) @ myAtts p\<rparr>) st
                         else st)
              in if isSupertype (st1 ! sub) then
                   (case fuel of
                      0 \<Rightarrow> None
                    | Suc fuel' \<Rightarrow>
                       (case findAttNamesOne fuel' sub (defs (st1 ! sub)) st1 of
                          Some (Inr st2) \<Rightarrow> findAttNamesOne fuel super ds st2
                        | r \<Rightarrow> r))
                 else findAttNamesOne fuel super ds st1)))"

definition findAttNamesTop :: "nat \<Rightarrow> nat \<Rightarrow> production list
    \<Rightarrow> (error + production list) option" where
  "findAttNamesTop fuel prd st =
     (if lhs (st ! prd) = ''instance'' then Some (Inr st)
      else if subtypeOf (st ! prd) = [] then
        (let st1 = modify prd (\<lambda>p. p\<lparr>attNames := attNames p @ myAtts p\<rparr>) st
         in if isSupertype (st1 ! prd) then findAttNamesOne fuel prd (defs (st1 ! prd)) st1
            else Some (Inr st1))
      else Some (Inr st))"

fun findAttNamesLoop :: "nat \<Rightarrow> nat list \<Rightarrow> production list
    \<Rightarrow> (error + production list) option" where
  "findAttNamesLoop fuel [] st = Some (Inr st)"
| "findAttNamesLoop fuel (prd # rest) st =
     (case findAttNamesTop fuel prd st of
        Some (Inr st') \<Rightarrow> findAttNamesLoop fuel rest st'
      | r \<Rightarrow> r)"

definition findAttNamesAll :: "nat \<Rightarrow> production list \<Rightarrow> (error + production list) option" where
  "findAttNamesAll fuel ps = findAttNamesLoop fuel [0..<length ps] ps"

subsection \<open>Own expressions (findMyExps)\<close>

text \<open>
  A cell of an expression list is modelled by the list from that cell on; the null
  pointer is the empty list. \<open>nextAtt\<close> is the inner loop that goes to the next
  expression that is a terminal or a nonterminal.
\<close>

definition nextAtt :: "expression list \<Rightarrow> expression list" where
  "nextAtt expCell =
     dropWhile (\<lambda>e. \<not> (theType e = TERMINAL \<or> theType e = NONTERMINAL)) expCell"

text \<open>
  The second loop: it looks for the attribute name that is the first of myAtts and
  steps along the expressions meanwhile. It reads \<open>expCell->next\<close> without a test.
\<close>

fun findFirstAtt :: "string \<Rightarrow> string list \<Rightarrow> expression list
    \<Rightarrow> error + (string list \<times> expression list)" where
  "findFirstAtt myName [] expCell = Inr ([], expCell)"
| "findFirstAtt myName (att # attCell) expCell =
     (if att = myName then Inr (att # attCell, expCell)
      else (case expCell of
              [] \<Rightarrow> Inl NullDereference
            | e # next \<Rightarrow> findFirstAtt myName attCell (nextAtt next)))"

text \<open>The third loop, over myAtts and attNames together.\<close>

fun matchAtts :: "string \<Rightarrow> string list \<Rightarrow> string list \<Rightarrow> expression list
    \<Rightarrow> expression list \<Rightarrow> error + expression list" where
  "matchAtts name [] attCell expCell exps = Inr exps"
| "matchAtts name (my # myCell) attCell expCell exps =
     (case expCell of
        [] \<Rightarrow> Inl (NotEnoughExpressions name)
      | e # next \<Rightarrow>
         (case attCell of
            [] \<Rightarrow> Inl (NotEnoughAttNames name)
          | att # attNext \<Rightarrow>
             (if att \<noteq> my then Inl (AttributeNamesDiffer att my name)
              else matchAtts name myCell attNext (nextAtt next) (exps @ [e]))))"

definition findMyExpsOne :: "nat \<Rightarrow> production list \<Rightarrow> error + production list" where
  "findMyExpsOne prd st =
     (case myAtts (st ! prd) of
        [] \<Rightarrow> Inr st
      | myName # myRest \<Rightarrow>
         (let source = (if isInstance (st ! prd) then prd
                        else (case beInstance (st ! prd) of Some b \<Rightarrow> b | None \<Rightarrow> prd))
          in case defs (st ! source) of
               [] \<Rightarrow> Inl NullDereference
             | d # ds \<Rightarrow>
                (case nextAtt d of
                   [] \<Rightarrow> Inl (NotEnoughExpressions (lhs (st ! prd)))
                 | e # es \<Rightarrow>
                    (case findFirstAtt myName (attNames (st ! source)) (e # es) of
                       Inl err \<Rightarrow> Inl err
                     | Inr (attCell, expCell) \<Rightarrow>
                        (case matchAtts (lhs (st ! prd)) (myName # myRest) attCell expCell
                                (myExps (st ! prd)) of
                           Inl err \<Rightarrow> Inl err
                         | Inr exps \<Rightarrow> Inr (modify prd (\<lambda>p. p\<lparr>myExps := exps\<rparr>) st))))))"

definition findMyExps :: "production list \<Rightarrow> error + production list" where
  "findMyExps ps = foldE findMyExpsOne [0..<length ps] ps"

subsection \<open>The global tables and the grammar file\<close>

text \<open>
  The globals of the program: the productions, the token names and their spellings
  (one row for each first letter; a row is modelled by its entries before the first
  null), the terminal names, and, as the output of printCppClasses, the productions in
  the order in which their classes are printed.
\<close>

abbreviation NAMESIZE :: nat where "NAMESIZE \<equiv> 256"
abbreviation LETTERSIZE :: nat where "LETTERSIZE \<equiv> 200"

record globals =
  productions :: "production list"
  tokenNames :: "nat \<Rightarrow> string list"
  tokenLexes :: "nat \<Rightarrow> string list"
  terminalNames :: "string list"
  classesPrinted :: "nat list"

text \<open>
  The grammar file as the program reads it: its rules, the token and terminal names the
  parser records while it reads them, and the block of attribute comments. A line of the
  block gives a production name, the names before a second colon and the names after it.
\<close>

type_synonym attLine = "string \<times> string list \<times> string list"

datatype attBlock = NoStart | NoEnd "attLine list" | Block "attLine list"

record grammarFile =
  fileRules :: "rule list"
  fileTokens :: "nat \<Rightarrow> string list"
  fileTerminals :: "string list"
  fileAttributes :: attBlock

subsection \<open>Token lookup (findToken) and production lookup (findProd)\<close>

fun scanNames :: "string \<Rightarrow> string list \<Rightarrow> nat \<Rightarrow> nat option" where
  "scanNames text [] n = None"
| "scanNames text (name # letterNames) n =
     (if LETTERSIZE \<le> n then None
      else if text = name then Some n
      else if text < name then None
      else scanNames text letterNames (Suc n))"

definition findToken :: "(nat \<Rightarrow> string list) \<Rightarrow> string \<Rightarrow> nat option" where
  "findToken names text =
     (case text of
        [] \<Rightarrow> None
      | c # cs \<Rightarrow>
         (if (of_char c :: nat) < 65 \<or> 90 < (of_char c :: nat) then None
          else scanNames text (names (of_char c - 65)) 0))"

definition findProd :: "production list \<Rightarrow> string \<Rightarrow> nat option" where
  "findProd ps name = find (\<lambda>prd. lhs (ps ! prd) = name) [0..<length ps]"

subsection \<open>Token spellings (reviseSpelling)\<close>

text \<open>
  A character of a C string: the terminating null stands at the position of the length.
  Characters are signed, as they are where the program is built.
\<close>

definition charAt :: "string \<Rightarrow> nat \<Rightarrow> char" where
  "charAt s i = (if i < length s then s ! i else CHR 0x00)"

definition charValue :: "char \<Rightarrow> int" where
  "charValue c = (if (of_char c :: nat) < 128 then int (of_char c) else int (of_char c) - 256)"

text \<open>
  The loop over the expressions of a spelling: \<open>buf\<close> holds what has been written to
  the buffer, whose size is NAMESIZE.
\<close>

fun spellLoop :: "expression list \<Rightarrow> string \<Rightarrow> error + string" where
  "spellLoop [] buf = (if NAMESIZE \<le> length buf then Inl BufferOverrun else Inr buf)"
| "spellLoop (exp # rest) buf =
     (if theType exp = ONECHAR then
        (if NAMESIZE \<le> length buf then Inl BufferOverrun
         else spellLoop rest (buf @ [charAt (itemName exp) 0]))
      else if theType exp = TWOCHAR then
        (if charValue (charAt (itemName exp) 1) \<noteq> charValue (charAt (itemName exp) 0) + 32
         then Inl BadTokenSpelling
         else if NAMESIZE \<le> length buf then Inl BufferOverrun
         else spellLoop rest (buf @ [charAt (itemName exp) 0]))
      else Inl BadTokenSpelling)"

text \<open>
  The body of the loop over the productions. The spelling is copied as a C string, up
  to its first null character.
\<close>

definition reviseOne :: "(nat \<Rightarrow> string list) \<Rightarrow> production \<Rightarrow> (nat \<Rightarrow> string list)
    \<Rightarrow> error + (nat \<Rightarrow> string list)" where
  "reviseOne names p lexes =
     (case findToken names (lhs p) of
        None \<Rightarrow> Inr lexes
      | Some n \<Rightarrow>
         (case defs p of
            [d] \<Rightarrow>
              (case spellLoop d [] of
                 Inl e \<Rightarrow> Inl e
               | Inr buf \<Rightarrow>
                  (let row = of_char (charAt (lhs p) 0) - 65
                   in Inr (lexes(row := (lexes row)[n := takeWhile (\<lambda>c. c \<noteq> CHR 0x00) buf]))))
          | _ \<Rightarrow> Inl BadTokenSpelling))"

definition reviseSpelling :: "globals \<Rightarrow> error + globals" where
  "reviseSpelling g =
     (case foldE (reviseOne (tokenNames g)) (productions g) (tokenNames g) of
        Inl e \<Rightarrow> Inl e
      | Inr lexes \<Rightarrow> Inr (g\<lparr>tokenLexes := lexes\<rparr>))"

subsection \<open>Attribute comments (findMyAtts)\<close>

definition readAttLine :: "attLine \<Rightarrow> production list \<Rightarrow> error + production list" where
  "readAttLine line ps =
     (case findProd ps (fst line) of
        None \<Rightarrow> Inl (NoSuchProduction (fst line))
      | Some prd \<Rightarrow>
         Inr (modify prd (\<lambda>p. p\<lparr>myAtts := myAtts p @ fst (snd line),
                                 attNames := attNames p @ snd (snd line)\<rparr>) ps))"

definition findMyAtts :: "attBlock \<Rightarrow> production list \<Rightarrow> error + production list" where
  "findMyAtts block ps =
     (case block of
        NoStart \<Rightarrow> Inl NoStartAttributes
      | NoEnd lines \<Rightarrow>
         (case foldE readAttLine lines ps of Inl e \<Rightarrow> Inl e | Inr ps' \<Rightarrow> Inl NoEndAttributes)
      | Block lines \<Rightarrow> foldE readAttLine lines ps)"

subsection \<open>Class printing order (selectProductions, printCppClasses)\<close>

definition selectProductions :: "globals \<Rightarrow> nat list" where
  "selectProductions g =
     filter (\<lambda>prd. lhs (productions g ! prd) \<notin> set (terminalNames g) \<and>
                   findToken (tokenNames g) (lhs (productions g ! prd)) = None \<and>
                   isList (productions g ! prd) = 0 \<and>
                   lhs (productions g ! prd) \<noteq> ''instancePlus'' \<and>
                   \<not> (isOptional (productions g ! prd) = 1 \<or> isOptional (productions g ! prd) = 2))
       [0..<length (productions g)]"

text \<open>
  One pass of the inner loop over the toPrint list. The state is the productions (with
  their wasPrinted marks), the classes printed so far and numberPrinted. The production
  \<open>instance\<close> is read through the pointer findProd returned, which is null when the
  grammar has no such production.
\<close>

fun printPass :: "nat option \<Rightarrow> nat list \<Rightarrow> production list \<times> nat list \<times> nat
    \<Rightarrow> error + production list \<times> nat list \<times> nat" where
  "printPass instanceProd [] acc = Inr acc"
| "printPass instanceProd (prd # cells) (st, out, numberPrinted) =
     (if wasPrinted (st ! prd) then printPass instanceProd cells (st, out, numberPrinted)
      else if isInstance (st ! prd) \<and> instanceProd = None then Inl NullDereference
      else if isInstance (st ! prd) \<and> \<not> wasPrinted (st ! the instanceProd)
        then printPass instanceProd cells (st, out, numberPrinted)
      else if \<not> list_all (\<lambda>super. wasPrinted (st ! super)) (subtypeOf (st ! prd))
        then printPass instanceProd cells (st, out, numberPrinted)
      else printPass instanceProd cells
             (modify prd (\<lambda>p. p\<lparr>wasPrinted := True\<rparr>) st, out @ [prd], Suc numberPrinted))"

text \<open>The outer loop, which runs at most as often as toPrint is long.\<close>

fun printLoop :: "nat \<Rightarrow> nat option \<Rightarrow> nat list \<Rightarrow> production list \<times> nat list \<times> nat
    \<Rightarrow> error + production list \<times> nat list \<times> nat" where
  "printLoop 0 instanceProd toPrint acc = Inr acc"
| "printLoop (Suc n) instanceProd toPrint (st, out, totalPrinted) =
     (case printPass instanceProd toPrint (st, out, 0) of
        Inl e \<Rightarrow> Inl e
      | Inr (st', out', numberPrinted) \<Rightarrow>
          (if numberPrinted = 0 then Inr (st', out', totalPrinted)
           else printLoop n instanceProd toPrint (st', out', totalPrinted + numberPrinted)))"

text \<open>The loop from a given state on, with the test that follows it.\<close>

definition printFrom :: "nat \<Rightarrow> nat option \<Rightarrow> nat list \<Rightarrow> production list \<times> nat list \<times> nat
    \<Rightarrow> error + production list \<times> nat list" where
  "printFrom n instanceProd toPrint acc =
     (case printLoop n instanceProd toPrint acc of
        Inl e \<Rightarrow> Inl e
      | Inr (st, out, totalPrinted) \<Rightarrow>
          (if totalPrinted \<noteq> length toPrint then Inl LoopInProductions else Inr (st, out)))"

definition printCppClasses :: "globals \<Rightarrow> error + globals" where
  "printCppClasses g =
     (let instanceProd = findProd (productions g) ''instance'';
          toPrint = selectProductions g
      in case printFrom (length toPrint) instanceProd toPrint (productions g, [], 0) of
           Inl e \<Rightarrow> Inl e
         | Inr (st, out) \<Rightarrow> Inr (g\<lparr>productions := st, classesPrinted := out\<rparr>))"


subsection \<open>The passes in the order of main\<close>

text \<open>
  main is a sequence of calls on the globals. To state in which order the passes run,
  the model names each pass and gives main as the list of these names, run from the
  empty tables main sets up. Parsing constructs the productions, and the constructor
  classifies lists, so \<open>Parse\<close> includes the list classification; \<open>ClassifyLists\<close> as a
  pass of its own classifies every production again. printYacc and printLex, which follow
  printCppClasses and only print, are not modelled.
\<close>

datatype pass =
    Parse | Bind | ClassifyLists | RefineSpelling | ReadOwnAtts | ClassifySupertypes
  | Ancestors | BeInstance | ClassifyOptionals | FullAtts | OwnExps | Emit

definition emptyGlobals :: globals where
  "emptyGlobals = \<lparr> productions = [], tokenNames = (\<lambda>row. []), tokenLexes = (\<lambda>row. []),
                     terminalNames = [], classesPrinted = [] \<rparr>"

definition onProductions :: "(production list \<Rightarrow> error + production list) \<Rightarrow> globals
    \<Rightarrow> error + globals" where
  "onProductions f g =
     (case f (productions g) of Inl e \<Rightarrow> Inl e | Inr ps \<Rightarrow> Inr (g\<lparr>productions := ps\<rparr>))"

fun runPass :: "nat \<Rightarrow> grammarFile \<Rightarrow> pass \<Rightarrow> globals \<Rightarrow> (error + globals) option" where
  "runPass fuel file Parse g =
     Some (Inr (g\<lparr>productions := yyparse (fileRules file), tokenNames := fileTokens file,
                   terminalNames := fileTerminals file\<rparr>))"
| "runPass fuel file ClassifyLists g =
     Some (Inr (g\<lparr>productions :=
                    map (\<lambda>p. p\<lparr>isList := findIsList (lhs p) (defs p)\<rparr>) (productions g)\<rparr>))"
| "runPass fuel file RefineSpelling g = Some (reviseSpelling g)"
| "runPass fuel file ReadOwnAtts g = Some (onProductions (findMyAtts (fileAttributes file)) g)"
| "runPass fuel file Bind g = Some (Inr (g\<lparr>productions := findProdValueAll (productions g)\<rparr>))"
| "runPass fuel file ClassifySupertypes g =
     Some (Inr (g\<lparr>productions := findSupertypes (productions g)\<rparr>))"
| "runPass fuel file Ancestors g =
     Some (Inr (g\<lparr>productions := findAllAncestors (productions g)\<rparr>))"
| "runPass fuel file BeInstance g =
     Some (Inr (g\<lparr>productions := findBeInstance (productions g)\<rparr>))"
| "runPass fuel file ClassifyOptionals g = Some (onProductions findOptProds g)"
| "runPass fuel file FullAtts g =
     (case findAttNamesAll fuel (productions g) of
        None \<Rightarrow> None
      | Some r \<Rightarrow> Some (onProductions (\<lambda>ps. r) g))"
| "runPass fuel file OwnExps g = Some (onProductions findMyExps g)"
| "runPass fuel file Emit g = Some (printCppClasses g)"

fun runPasses :: "nat \<Rightarrow> grammarFile \<Rightarrow> pass list \<Rightarrow> globals \<Rightarrow> (error + globals) option" where
  "runPasses fuel file [] g = Some (Inr g)"
| "runPasses fuel file (p # rest) g =
     (case runPass fuel file p g of
        Some (Inr g') \<Rightarrow> runPasses fuel file rest g'
      | r \<Rightarrow> r)"

definition mainPasses :: "pass list" where
  "mainPasses = [Parse, RefineSpelling, ReadOwnAtts, Bind, ClassifySupertypes, Ancestors,
                 BeInstance, ClassifyOptionals, FullAtts, OwnExps, Emit]"

definition main :: "nat \<Rightarrow> grammarFile \<Rightarrow> (error + globals) option" where
  "main fuel file = runPasses fuel file mainPasses emptyGlobals"

text \<open>The analysis alone: main without the printing of the classes.\<close>

definition analyse :: "nat \<Rightarrow> grammarFile \<Rightarrow> (error + globals) option" where
  "analyse fuel file = runPasses fuel file (butlast mainPasses) emptyGlobals"

text \<open>
  The order of the passes in the words of the specification: parse, bind,
  classify-lists, refine-spelling, read-own-atts, classify-supertypes, ancestors,
  be-instance, classify-optionals, full-atts, own-exps, emit.
\<close>

definition specPasses :: "pass list" where
  "specPasses = [Parse, Bind, ClassifyLists, RefineSpelling, ReadOwnAtts, ClassifySupertypes,
                 Ancestors, BeInstance, ClassifyOptionals, FullAtts, OwnExps, Emit]"

text \<open>\<open>a\<close> occurs in the list before the first \<open>b\<close>.\<close>

definition runsBefore :: "pass \<Rightarrow> pass \<Rightarrow> pass list \<Rightarrow> bool" where
  "runsBefore a b passes = (a \<in> set (takeWhile (\<lambda>p. p \<noteq> b) passes))"


subsection \<open>The passes of main on the productions, up to findBeInstance\<close>

definition bindAndClassify :: "rule list \<Rightarrow> production list" where
  "bindAndClassify rules =
     findBeInstance (findAllAncestors (findSupertypes (findProdValueAll (yyparse rules))))"

subsection \<open>Example grammars\<close>

text \<open>\<open>optDirection = direction | '$' ; direction = DIRECTION ;\<close>\<close>

definition optionalDirection :: "rule list" where
  "optionalDirection =
     [(''optDirection'', [[(NONTERMINAL, ''direction'')], [(ONECHAR, ''$'')]]),
      (''direction'', [[(KEYWORD, ''DIRECTION'')]])]"

text \<open>The same with the two definitions in the other order.\<close>

definition optionalReversed :: "rule list" where
  "optionalReversed =
     [(''optDirection'', [[(ONECHAR, ''$'')], [(NONTERMINAL, ''direction'')]]),
      (''direction'', [[(KEYWORD, ''DIRECTION'')]])]"

text \<open>
  \<open>optA = optB | '$' ; optB = x | '$' ; x = X ;\<close>, where \<open>optB\<close> is the optional child
  of \<open>optA\<close> and the optional parent of \<open>x\<close>.
\<close>

definition optionalChain :: "rule list" where
  "optionalChain =
     [(''optA'', [[(NONTERMINAL, ''optB'')], [(ONECHAR, ''$'')]]),
      (''optB'', [[(NONTERMINAL, ''x'')], [(ONECHAR, ''$'')]]),
      (''x'', [[(KEYWORD, ''X'')]])]"

text \<open>
  The grammar \<open>instance = a | b ; a = b | d ; b = BKW ; d = DKW ;\<close>, in which the
  instance \<open>a\<close> is a supertype of the instance \<open>b\<close>.
\<close>

definition nestedInstances :: "rule list" where
  "nestedInstances =
     [(''instance'', [[(NONTERMINAL, ''a'')], [(NONTERMINAL, ''b'')]]),
      (''a'', [[(NONTERMINAL, ''b'')], [(NONTERMINAL, ''d'')]]),
      (''b'', [[(KEYWORD, ''BKW'')]]),
      (''d'', [[(KEYWORD, ''DKW'')]])]"

text \<open>
  A grammar file with a supertype that is also an optional child:
  \<open>kind = a | b ; a = KA ; b = KB ; optKind = kind | '$' ;\<close>, with no attributes.
\<close>

definition kindFile :: grammarFile where
  "kindFile =
     \<lparr> fileRules =
         [(''kind'', [[(NONTERMINAL, ''a'')], [(NONTERMINAL, ''b'')]]),
          (''a'', [[(KEYWORD, ''KA'')]]),
          (''b'', [[(KEYWORD, ''KB'')]]),
          (''optKind'', [[(NONTERMINAL, ''kind'')], [(ONECHAR, ''$'')]])],
       fileTokens = (\<lambda>row. if row = 10 then [''KA'', ''KB''] else []),
       fileTerminals = [],
       fileAttributes = Block [] \<rparr>"

text \<open>Two productions that are each other's supertype: \<open>x = y ; y = x ;\<close>\<close>

definition cycleFile :: grammarFile where
  "cycleFile =
     \<lparr> fileRules = [(''x'', [[(NONTERMINAL, ''y'')]]), (''y'', [[(NONTERMINAL, ''x'')]])],
       fileTokens = (\<lambda>row. []),
       fileTerminals = [],
       fileAttributes = Block [] \<rparr>"

text \<open>
  \<open>optShape = shape | '$' ; shape = circle ; circle = CIRCLE ; instance = circle ;\<close>,
  where the optional child \<open>shape\<close> is no instance and is the supertype of one.
\<close>

definition optionalShape :: "rule list" where
  "optionalShape =
     [(''optShape'', [[(NONTERMINAL, ''shape'')], [(ONECHAR, ''$'')]]),
      (''shape'', [[(NONTERMINAL, ''circle'')]]),
      (''circle'', [[(KEYWORD, ''CIRCLE'')]]),
      (''instance'', [[(NONTERMINAL, ''circle'')]])]"

text \<open>
  A grammar file in which a subtype stands before its supertype:
  \<open>a = KA ; kind = a ;\<close>, with no attributes.
\<close>

definition subtypeFirstFile :: grammarFile where
  "subtypeFirstFile =
     \<lparr> fileRules =
         [(''a'', [[(KEYWORD, ''KA'')]]),
          (''kind'', [[(NONTERMINAL, ''a'')]])],
       fileTokens = (\<lambda>row. if row = 10 then [''KA''] else []),
       fileTerminals = [],
       fileAttributes = Block [] \<rparr>"

text \<open>
  A grammar file in which a production with no supertype has a line of attribute
  comments with a second colon:
  \<open>p = PKW , x , x ; x = XKW ; s = q ; q = QKW , x , x ;\<close> with the attribute comments
  \<open>(* p : a b : a b *)\<close>, \<open>(* s : a *)\<close> and \<open>(* q : b : a b *)\<close>.
\<close>

definition rootOverrideFile :: grammarFile where
  "rootOverrideFile =
     \<lparr> fileRules =
         [(''p'', [[(KEYWORD, ''PKW''), (NONTERMINAL, ''x''), (NONTERMINAL, ''x'')]]),
          (''x'', [[(KEYWORD, ''XKW'')]]),
          (''s'', [[(NONTERMINAL, ''q'')]]),
          (''q'', [[(KEYWORD, ''QKW''), (NONTERMINAL, ''x''), (NONTERMINAL, ''x'')]])],
       fileTokens = (\<lambda>row. if row = 15 then [''PKW''] else if row = 16 then [''QKW'']
                            else if row = 23 then [''XKW''] else []),
       fileTerminals = [],
       fileAttributes = Block [(''p'', [''a'', ''b''], [''a'', ''b'']),
                               (''s'', [''a''], []),
                               (''q'', [''b''], [''a'', ''b''])] \<rparr>"

text \<open>
  A grammar file in which an instance has fewer expressions than attribute names:
  \<open>q = QKW , x ; x = XKW ; instance = q ; s = q ;\<close> with the attribute comments
  \<open>(* s : a z *)\<close> and \<open>(* q : b *)\<close>.
\<close>

definition fewExpressionsFile :: grammarFile where
  "fewExpressionsFile =
     \<lparr> fileRules =
         [(''q'', [[(KEYWORD, ''QKW''), (NONTERMINAL, ''x'')]]),
          (''x'', [[(KEYWORD, ''XKW'')]]),
          (''instance'', [[(NONTERMINAL, ''q'')]]),
          (''s'', [[(NONTERMINAL, ''q'')]])],
       fileTokens = (\<lambda>row. if row = 16 then [''QKW''] else if row = 23 then [''XKW''] else []),
       fileTerminals = [],
       fileAttributes = Block [(''s'', [''a'', ''z''], []), (''q'', [''b''], [])] \<rparr>"

section \<open>Properties\<close>

subsection \<open>Assignment through a pointer\<close>

lemma modify_length [simp]: "length (modify p g st) = length st"
  by (simp add: modify_def)

lemma modify_nth:
  "modify p g st ! q = (if q = p \<and> p < length st then g (st ! p) else st ! q)"
  by (cases "p < length st") (auto simp: modify_def nth_list_update list_update_beyond)

lemma map_modify [simp]: "(\<And>x. F (g x) = F x) \<Longrightarrow> map F (modify p g st) = map F st"
  by (rule nth_equalityI) (simp_all add: modify_nth)

subsection \<open>Lists of a given length\<close>

lemma length_eq_1: "length xs = Suc 0 \<longleftrightarrow> (\<exists>a. xs = [a])"
  by (cases xs) auto

lemma length_eq_2: "length xs = 2 \<longleftrightarrow> (\<exists>a b. xs = [a, b])"
  by (cases xs; cases "tl xs"; cases "tl (tl xs)") auto

lemma length_eq_3: "length xs = 3 \<longleftrightarrow> (\<exists>a b c. xs = [a, b, c])"
  by (cases xs; cases "tl xs"; cases "tl (tl xs)"; cases "tl (tl (tl xs))") auto

subsection \<open>List classification\<close>

lemma findIsList_2D:
  assumes "findIsList l ds = 2"
  shows "\<exists>a x m b. ds = [[a], [x, m, b]] \<and> itemName x = l \<and> itemName m = ''c'' \<and>
         itemName b = itemName a"
proof -
  from assms have len: "length ds = 2" "length (hd ds) = Suc 0" "length (last ds) = 3"
    by (simp_all add: findIsList_def Let_def split: if_splits)
  from len(1) obtain d1 d2 where ds: "ds = [d1, d2]" by (auto simp: length_eq_2)
  from len(2) ds obtain a where d1: "d1 = [a]" by (auto simp: length_eq_1)
  from len(3) ds obtain x m b where d2: "d2 = [x, m, b]" by (auto simp: length_eq_3)
  from assms show ?thesis
    by (simp add: findIsList_def ds d1 d2 split: if_splits)
qed

lemma findIsList_1D:
  assumes "findIsList l ds = 1"
  shows "\<exists>a x b. ds = [[a], [x, b]] \<and> itemName x = l \<and> itemName b = itemName a"
proof -
  from assms have len: "length ds = 2" "length (hd ds) = Suc 0" "length (last ds) = 2"
    by (simp_all add: findIsList_def Let_def split: if_splits)
  from len(1) obtain d1 d2 where ds: "ds = [d1, d2]" by (auto simp: length_eq_2)
  from len(2) ds obtain a where d1: "d1 = [a]" by (auto simp: length_eq_1)
  from len(3) ds obtain x b where d2: "d2 = [x, b]" by (auto simp: length_eq_2)
  from assms show ?thesis
    by (simp add: findIsList_def ds d1 d2 split: if_splits)
qed

lemma findIsList_range: "findIsList l ds = 0 \<or> findIsList l ds = 1 \<or> findIsList l ds = 2"
  by (simp add: findIsList_def Let_def)

text \<open>
  C8, as the code has it. The production constructed from a name and its definitions is
  a comma-separated list (2) exactly when it has two definitions, the first of one
  expression and the second of three, of which the first has the production's own name
  as its item name, the middle one has the item name \<open>c\<close> and the last has the item
  name of the sole expression of the first definition; it is a plain list (1) exactly
  when the second definition has two expressions, the first with the production's own
  name and the last with the item name of the list item; in every other case it is no
  list (0). Only item names are compared: the kind of no expression is looked at.
\<close>

theorem findIsList_shape:
  "(isList (newProduction l ds) = 2 \<longleftrightarrow>
      (\<exists>a x m b. ds = [[a], [x, m, b]] \<and> itemName x = l \<and> itemName m = ''c'' \<and>
         itemName b = itemName a)) \<and>
   (isList (newProduction l ds) = 1 \<longleftrightarrow>
      (\<exists>a x b. ds = [[a], [x, b]] \<and> itemName x = l \<and> itemName b = itemName a)) \<and>
   (isList (newProduction l ds) = 0 \<or> isList (newProduction l ds) = 1 \<or>
      isList (newProduction l ds) = 2)"
proof -
  have il: "isList (newProduction l ds) = findIsList l ds"
    by (simp add: newProduction_def)
  have two: "findIsList l ds = 2"
    if "\<exists>a x m b. ds = [[a], [x, m, b]] \<and> itemName x = l \<and> itemName m = ''c'' \<and>
         itemName b = itemName a"
    using that by (auto simp: findIsList_def)
  have one: "findIsList l ds = 1"
    if "\<exists>a x b. ds = [[a], [x, b]] \<and> itemName x = l \<and> itemName b = itemName a"
    using that by (auto simp: findIsList_def)
  show ?thesis
    unfolding il using two one findIsList_2D [of l ds] findIsList_1D [of l ds]
      findIsList_range [of l ds] by blast
qed

text \<open>
  C8 as stated fails: the rule \<open>CHARSTRING = x | CHARSTRING , x ;\<close>, whose left side
  and whose first expression of the second definition are the terminal \<open>CHARSTRING\<close>,
  is classified as a plain list although that expression is no nonterminal.
\<close>

theorem findIsList_counterexample:
  "isList (newProduction ''CHARSTRING''
      [[newExpression (NONTERMINAL, ''x'')],
       [newExpression (TERMINAL, ''CHARSTRING''), newExpression (NONTERMINAL, ''x'')]]) = 1
   \<and> theType (newExpression (TERMINAL, ''CHARSTRING'')) \<noteq> NONTERMINAL"
  by (simp add: newProduction_def findIsList_def newExpression_def)

subsection \<open>Binding\<close>

text \<open>
  What the binding pass does to one expression of the production at position \<open>i\<close>:
  every production \<open>k\<close> other than \<open>i\<close>, in the order of the list, writes itself into
  the expression when its name is the item name.
\<close>


definition bindStep :: "production list \<Rightarrow> nat \<Rightarrow> nat \<Rightarrow> expression \<Rightarrow> expression" where
  "bindStep ps i k e = (if k \<noteq> i \<and> lhs (ps ! k) = itemName e then e\<lparr>prodValue := Some k\<rparr> else e)"

definition bindExp :: "production list \<Rightarrow> nat \<Rightarrow> nat list \<Rightarrow> expression \<Rightarrow> expression" where
  "bindExp ps i ks e = fold (bindStep ps i) ks e"

lemma userLoop_length [simp]: "length (userLoop k l u ps) = length ps"
  by (induction ps arbitrary: u) auto

lemma userLoop_nth:
  "i < length ps \<Longrightarrow> userLoop k l u ps ! i =
     (if u + i = k then ps ! i
      else (ps ! i)\<lparr>defs := map (setProdValue k l) (defs (ps ! i))\<rparr>)"
proof (induction ps arbitrary: u i)
  case Nil
  then show ?case by simp
next
  case (Cons p ps)
  show ?case
  proof (cases i)
    case 0
    then show ?thesis by simp
  next
    case (Suc j)
    with Cons.prems have "j < length ps" by simp
    from Cons.IH [OF this, of "Suc u"] Suc show ?thesis by simp
  qed
qed

lemma findProdValueOne_length [simp]: "length (findProdValueOne ps k) = length ps"
  by (simp add: findProdValueOne_def)

lemma findProdValueOne_lhs:
  "i < length ps \<Longrightarrow> lhs (findProdValueOne ps k ! i) = lhs (ps ! i)"
  by (simp add: findProdValueOne_def userLoop_nth)

lemma setProdValue_bindStep:
  "i \<noteq> k \<Longrightarrow> setProdValue k (lhs (ps ! k)) d = map (bindStep ps i k) d"
  by (simp add: setProdValue_def bindStep_def)

lemma findProdValueOne_defs:
  "i < length ps \<Longrightarrow>
     defs (findProdValueOne ps k ! i) = map (map (bindStep ps i k)) (defs (ps ! i))"
proof (cases "i = k")
  case True
  assume "i < length ps"
  moreover have "map (map (bindStep ps k k)) ds = ds" for ds
    by (simp add: bindStep_def map_idI)
  ultimately show ?thesis using True by (simp add: findProdValueOne_def userLoop_nth)
next
  case False
  assume "i < length ps"
  moreover have "map (setProdValue k (lhs (ps ! k))) ds = map (map (bindStep ps i k)) ds" for ds
    using False setProdValue_bindStep [of i k ps] by simp
  ultimately show ?thesis using False by (simp add: findProdValueOne_def userLoop_nth)
qed

lemma bindStep_cong:
  "k < length ps \<Longrightarrow> length st = length ps \<Longrightarrow> lhs (st ! k) = lhs (ps ! k) \<Longrightarrow>
     bindStep st i k = bindStep ps i k"
  by (simp add: bindStep_def fun_eq_iff)

lemma bindExp_cong:
  assumes "\<forall>k\<in>set ks. k < length ps" "length st = length ps"
    "\<forall>k<length ps. lhs (st ! k) = lhs (ps ! k)"
  shows "bindExp st i ks e = bindExp ps i ks e"
  using assms(1)
proof (induction ks arbitrary: e)
  case Nil
  then show ?case by (simp add: bindExp_def)
next
  case (Cons k ks)
  then have "bindStep st i k = bindStep ps i k"
    using assms(2,3) by (intro bindStep_cong) auto
  with Cons show ?case by (simp add: bindExp_def)
qed

lemma bind_fold:
  assumes "\<forall>k\<in>set ks. k < length ps"
  shows "length (fold (\<lambda>prd st. findProdValueOne st prd) ks ps) = length ps \<and>
     (\<forall>i<length ps.
        lhs (fold (\<lambda>prd st. findProdValueOne st prd) ks ps ! i) = lhs (ps ! i) \<and>
        defs (fold (\<lambda>prd st. findProdValueOne st prd) ks ps ! i)
          = map (map (bindExp ps i ks)) (defs (ps ! i)))"
  using assms
proof (induction ks arbitrary: ps)
  case Nil
  have "bindExp ps i [] = (\<lambda>e. e)" for i by (simp add: bindExp_def fun_eq_iff)
  then show ?case by (simp add: map_idI)
next
  case (Cons k ks)
  let ?st = "findProdValueOne ps k"
  have ks: "\<forall>k\<in>set ks. k < length ?st" using Cons.prems by simp
  note IH = Cons.IH [OF ks]
  have lhs1: "\<forall>j<length ps. lhs (?st ! j) = lhs (ps ! j)"
    by (simp add: findProdValueOne_lhs)
  have cong: "bindExp ?st i ks e = bindExp ps i ks e" for i e
    using Cons.prems lhs1 by (intro bindExp_cong) auto
  show ?case
  proof (intro conjI allI impI)
    show "length (fold (\<lambda>prd st. findProdValueOne st prd) (k # ks) ps) = length ps"
      using IH by simp
  next
    fix i assume i: "i < length ps"
    then show "lhs (fold (\<lambda>prd st. findProdValueOne st prd) (k # ks) ps ! i) = lhs (ps ! i)"
      using IH lhs1 by simp
  next
    fix i assume i: "i < length ps"
    have "defs (fold (\<lambda>prd st. findProdValueOne st prd) (k # ks) ps ! i)
          = map (map (bindExp ?st i ks)) (defs (?st ! i))"
      using IH i by simp
    also have "\<dots> = map (map (bindExp ps i ks)) (map (map (bindStep ps i k)) (defs (ps ! i)))"
      using i cong by (simp add: findProdValueOne_defs)
    also have "\<dots> = map (map (bindExp ps i (k # ks))) (defs (ps ! i))"
      by (simp add: bindExp_def comp_def)
    finally show "defs (fold (\<lambda>prd st. findProdValueOne st prd) (k # ks) ps ! i)
          = map (map (bindExp ps i (k # ks))) (defs (ps ! i))" .
  qed
qed

lemma findProdValueAll_length [simp]: "length (findProdValueAll ps) = length ps"
  using bind_fold [of "[0..<length ps]" ps] by (simp add: findProdValueAll_def)

lemma findProdValueAll_lhs:
  "i < length ps \<Longrightarrow> lhs (findProdValueAll ps ! i) = lhs (ps ! i)"
  using bind_fold [of "[0..<length ps]" ps] by (simp add: findProdValueAll_def)

lemma findProdValueAll_defs:
  "i < length ps \<Longrightarrow> defs (findProdValueAll ps ! i)
     = map (map (bindExp ps i [0..<length ps])) (defs (ps ! i))"
  using bind_fold [of "[0..<length ps]" ps] by (simp add: findProdValueAll_def)

lemma bindExp_names [simp]:
  "itemName (bindExp ps i ks e) = itemName e" "theType (bindExp ps i ks e) = theType e"
  by (induction ks arbitrary: e) (simp_all add: bindExp_def bindStep_def)

lemma bindExp_snoc: "bindExp ps i (ks @ [k]) e = bindStep ps i k (bindExp ps i ks e)"
  by (simp add: bindExp_def)

lemma bindExp_upt:
  "((\<exists>j<n. j \<noteq> i \<and> lhs (ps ! j) = itemName e) \<longrightarrow>
      (\<exists>j<n. j \<noteq> i \<and> lhs (ps ! j) = itemName e \<and>
         prodValue (bindExp ps i [0..<n] e) = Some j)) \<and>
   (\<not> (\<exists>j<n. j \<noteq> i \<and> lhs (ps ! j) = itemName e) \<longrightarrow>
      prodValue (bindExp ps i [0..<n] e) = prodValue e)"
proof (induction n)
  case 0
  show ?case by (simp add: bindExp_def)
next
  case (Suc n)
  show ?case
  proof (cases "n \<noteq> i \<and> lhs (ps ! n) = itemName e")
    case True
    then have "prodValue (bindExp ps i [0..<Suc n] e) = Some n"
      by (simp add: bindExp_snoc bindStep_def)
    with True show ?thesis by auto
  next
    case False
    then have eq: "bindExp ps i [0..<Suc n] e = bindExp ps i [0..<n] e"
      by (auto simp add: bindExp_snoc bindStep_def)
    have iff: "(\<exists>j<Suc n. j \<noteq> i \<and> lhs (ps ! j) = itemName e)
               \<longleftrightarrow> (\<exists>j<n. j \<noteq> i \<and> lhs (ps ! j) = itemName e)"
      using False less_Suc_eq by auto
    show ?thesis unfolding eq iff using Suc.IH less_Suc_eq by blast
  qed
qed


lemma yyparse_prodValue:
  assumes "i < length (yyparse rules)" "d \<in> set (defs (yyparse rules ! i))" "e \<in> set d"
  shows "prodValue e = None"
proof -
  from assms(1) have "yyparse rules ! i \<in> set (yyparse rules)" by simp
  then obtain r where "yyparse rules ! i = newProduction (fst r) (map (map newExpression) (snd r))"
    by (auto simp: yyparse_def)
  with assms(2,3) obtain tok where "e = newExpression tok"
    by (auto simp: newProduction_def)
  then show ?thesis by (simp add: newExpression_def commaExp_def)
qed

text \<open>
  C1, as the code has it. After the binding pass over the productions the parser
  retained, an expression (of any kind) of a production P whose item name is the name
  of a retained production other than P points at such a production, and its kind and
  item name are unchanged; an expression whose item name is the name of no retained
  production other than P itself stays unbound, so a reference of a production to
  itself is never established.
\<close>

theorem findProdValueAll_binds_others:
  assumes "i < length (yyparse rules)"
    and "a < length (defs (yyparse rules ! i))"
    and "b < length (defs (yyparse rules ! i) ! a)"
  shows "itemName (defs (findProdValueAll (yyparse rules) ! i) ! a ! b)
           = itemName (defs (yyparse rules ! i) ! a ! b) \<and>
         theType (defs (findProdValueAll (yyparse rules) ! i) ! a ! b)
           = theType (defs (yyparse rules ! i) ! a ! b) \<and>
         ((\<exists>j<length (yyparse rules). j \<noteq> i \<and>
              lhs (yyparse rules ! j) = itemName (defs (yyparse rules ! i) ! a ! b)) \<longrightarrow>
          (\<exists>j<length (yyparse rules). j \<noteq> i \<and>
              lhs (yyparse rules ! j) = itemName (defs (yyparse rules ! i) ! a ! b) \<and>
              prodValue (defs (findProdValueAll (yyparse rules) ! i) ! a ! b) = Some j)) \<and>
         (\<not> (\<exists>j<length (yyparse rules). j \<noteq> i \<and>
              lhs (yyparse rules ! j) = itemName (defs (yyparse rules ! i) ! a ! b)) \<longrightarrow>
          prodValue (defs (findProdValueAll (yyparse rules) ! i) ! a ! b) = None)"
proof -
  let ?ps = "yyparse rules"
  let ?e = "defs (?ps ! i) ! a ! b"
  have e': "defs (findProdValueAll ?ps ! i) ! a ! b = bindExp ?ps i [0..<length ?ps] ?e"
    using assms by (simp add: findProdValueAll_defs)
  have "defs (?ps ! i) ! a \<in> set (defs (?ps ! i))" "?e \<in> set (defs (?ps ! i) ! a)"
    using assms by simp_all
  then have none: "prodValue ?e = None"
    using yyparse_prodValue [OF assms(1)] by blast
  show ?thesis
    unfolding e' using bindExp_upt [of "length ?ps" i ?ps ?e] none by simp
qed

theorem findProdValueAll_binds_others_witness:
  "(0::nat) < length (yyparse [(''xs'', [[(NONTERMINAL, ''x'')],
                                        [(NONTERMINAL, ''xs''), (NONTERMINAL, ''x'')]]),
                               (''x'', [[(ONECHAR, ''a'')]])]) \<and>
   prodValue (defs (findProdValueAll
      (yyparse [(''xs'', [[(NONTERMINAL, ''x'')],
                          [(NONTERMINAL, ''xs''), (NONTERMINAL, ''x'')]]),
                (''x'', [[(ONECHAR, ''a'')]])]) ! 0) ! 1 ! 1) = Some 1"
proof -
  let ?rules = "[(''xs'', [[(NONTERMINAL, ''x'')],
                          [(NONTERMINAL, ''xs''), (NONTERMINAL, ''x'')]]),
                (''x'', [[(ONECHAR, ''a'')]])]"
  have ps: "yyparse ?rules =
      [newProduction ''xs'' [[newExpression (NONTERMINAL, ''x'')],
          [newExpression (NONTERMINAL, ''xs''), newExpression (NONTERMINAL, ''x'')]],
       newProduction ''x'' [[newExpression (ONECHAR, ''a'')]]]"
    by (simp add: yyparse_def)
  have h: "0 < length (yyparse ?rules)" "1 < length (defs (yyparse ?rules ! 0))"
    "1 < length (defs (yyparse ?rules ! 0) ! 1)"
    by (simp_all add: ps newProduction_def)
  have nm: "lhs (yyparse ?rules ! 1) = itemName (defs (yyparse ?rules ! 0) ! 1 ! 1)"
    by (simp add: ps newProduction_def newExpression_def)
  from findProdValueAll_binds_others [OF h] nm
  have "\<exists>j<length (yyparse ?rules). j \<noteq> 0 \<and>
          prodValue (defs (findProdValueAll (yyparse ?rules) ! 0) ! 1 ! 1) = Some j"
    using h(1) by (auto simp: ps)
  then have "prodValue (defs (findProdValueAll (yyparse ?rules) ! 0) ! 1 ! 1) = Some 1"
    by (auto simp: ps less_Suc_eq)
  with h(1) show ?thesis by blast
qed

text \<open>
  C1 as stated fails on the self reference of a list: in \<open>xs = x | xs , x ;\<close> the
  first expression of the second definition is a nonterminal whose item name is the
  name of the retained production \<open>xs\<close>, and it is unbound after the binding pass.
\<close>

theorem findProdValueAll_self_counterexample:
  "lhs (yyparse [(''xs'', [[(NONTERMINAL, ''x'')],
                           [(NONTERMINAL, ''xs''), (NONTERMINAL, ''x'')]]),
                  (''x'', [[(ONECHAR, ''a'')]])] ! 0) = ''xs'' \<and>
   itemName (defs (findProdValueAll
      (yyparse [(''xs'', [[(NONTERMINAL, ''x'')],
                          [(NONTERMINAL, ''xs''), (NONTERMINAL, ''x'')]]),
                (''x'', [[(ONECHAR, ''a'')]])]) ! 0) ! 1 ! 0) = ''xs'' \<and>
   theType (defs (findProdValueAll
      (yyparse [(''xs'', [[(NONTERMINAL, ''x'')],
                          [(NONTERMINAL, ''xs''), (NONTERMINAL, ''x'')]]),
                (''x'', [[(ONECHAR, ''a'')]])]) ! 0) ! 1 ! 0) = NONTERMINAL \<and>
   prodValue (defs (findProdValueAll
      (yyparse [(''xs'', [[(NONTERMINAL, ''x'')],
                          [(NONTERMINAL, ''xs''), (NONTERMINAL, ''x'')]]),
                (''x'', [[(ONECHAR, ''a'')]])]) ! 0) ! 1 ! 0) = None"
  by (simp add: yyparse_def findProdValueAll_def findProdValueOne_def newProduction_def
      newExpression_def setProdValue_def findIsList_def)

subsection \<open>Evaluation of the passes on concrete grammars\<close>

lemmas eval_defs = yyparse_def newProduction_def newExpression_def findIsList_def commaExp_def
  findProdValueAll_def findProdValueOne_def setProdValue_def upt_rec
  findSupertypes_def findSupertypesOne_def isSubtypeDef_def markInstance_def addSupertype_def
  findAllAncestors_def findBeInstance_def findBeInstanceOne_def setBeInstance_def modify_def

lemma fold_invariant:
  assumes "P s" and "\<And>x s. x \<in> set xs \<Longrightarrow> P s \<Longrightarrow> P (f x s)"
  shows "P (fold f xs s)"
  using assms by (induction xs arbitrary: s) auto

subsection \<open>Instances below a production (C5)\<close>

lemma setBeInstance_length [simp]: "length (setBeInstance sub super st) = length st"
  by (simp add: setBeInstance_def)

lemma setBeInstance_frame:
  "isInstance (setBeInstance sub super st ! q) = isInstance (st ! q)"
  "ancestors (setBeInstance sub super st ! q) = ancestors (st ! q)"
  by (simp_all add: setBeInstance_def modify_nth)

lemma setBeInstance_beInstance:
  "p < length st \<Longrightarrow> beInstance (setBeInstance sub super st ! p)
     = (if p = super \<and> beInstance (st ! p) = None then Some sub else beInstance (st ! p))"
  by (auto simp: setBeInstance_def modify_nth)

lemma fold_setBeInstance_frame:
  "length (fold (setBeInstance sub) supers st) = length st \<and>
   isInstance (fold (setBeInstance sub) supers st ! q) = isInstance (st ! q) \<and>
   ancestors (fold (setBeInstance sub) supers st ! q) = ancestors (st ! q)"
  by (induction supers arbitrary: st) (simp_all add: setBeInstance_frame)

lemma fold_setBeInstance_beInstance:
  "p < length st \<Longrightarrow> beInstance (fold (setBeInstance sub) supers st ! p)
     = (if p \<in> set supers \<and> beInstance (st ! p) = None then Some sub
        else beInstance (st ! p))"
  by (induction supers arbitrary: st) (auto simp: setBeInstance_beInstance)

lemma findBeInstanceOne_frame:
  "length (findBeInstanceOne st sub) = length st \<and>
   isInstance (findBeInstanceOne st sub ! q) = isInstance (st ! q) \<and>
   ancestors (findBeInstanceOne st sub ! q) = ancestors (st ! q)"
  by (simp add: findBeInstanceOne_def fold_setBeInstance_frame)

lemma findBeInstanceOne_beInstance:
  "p < length st \<Longrightarrow> beInstance (findBeInstanceOne st sub ! p)
     = (if isInstance (st ! sub) \<and> p \<in> set (ancestors (st ! sub)) \<and> beInstance (st ! p) = None
        then Some sub else beInstance (st ! p))"
  by (simp add: findBeInstanceOne_def fold_setBeInstance_beInstance)

lemma fold_findBeInstanceOne:
  assumes "p < length st"
  shows "length (fold (\<lambda>sub st. findBeInstanceOne st sub) subs st) = length st \<and>
     (\<forall>q. isInstance (fold (\<lambda>sub st. findBeInstanceOne st sub) subs st ! q) = isInstance (st ! q) \<and>
          ancestors (fold (\<lambda>sub st. findBeInstanceOne st sub) subs st ! q) = ancestors (st ! q)) \<and>
     (beInstance (fold (\<lambda>sub st. findBeInstanceOne st sub) subs st ! p) = None \<longleftrightarrow>
        beInstance (st ! p) = None \<and>
        \<not> (\<exists>sub\<in>set subs. isInstance (st ! sub) \<and> p \<in> set (ancestors (st ! sub))))"
  using assms
proof (induction subs arbitrary: st)
  case Nil
  then show ?case by simp
next
  case (Cons sub subs)
  let ?st = "findBeInstanceOne st sub"
  have p: "p < length ?st" using Cons.prems by (simp add: findBeInstanceOne_frame)
  note IH = Cons.IH [OF p]
  have fr: "length ?st = length st" "\<And>q. isInstance (?st ! q) = isInstance (st ! q)"
    "\<And>q. ancestors (?st ! q) = ancestors (st ! q)"
    by (simp_all add: findBeInstanceOne_frame)
  have be: "beInstance (?st ! p) = None \<longleftrightarrow>
      beInstance (st ! p) = None \<and> \<not> (isInstance (st ! sub) \<and> p \<in> set (ancestors (st ! sub)))"
    using Cons.prems by (simp add: findBeInstanceOne_beInstance del: not_None_eq) blast
  have "fold (\<lambda>sub st. findBeInstanceOne st sub) (sub # subs) st
        = fold (\<lambda>sub st. findBeInstanceOne st sub) subs ?st" by simp
  then show ?case
    using IH unfolding fr be by auto
qed

text \<open>
  C5, as the code has it. Starting from a production whose beInstance is unset, the
  pass leaves it unset exactly when the production is on the ancestors list of no
  production that is an instance; it does not change isInstance, and it does not ask
  whether the ancestor is an instance itself. So an instance keeps an unset beInstance
  exactly when it is no ancestor of an instance.
\<close>

theorem findBeInstance_sets_ancestors_of_instances:
  assumes "p < length ps" and "beInstance (ps ! p) = None"
  shows "isInstance (findBeInstance ps ! p) = isInstance (ps ! p) \<and>
         (beInstance (findBeInstance ps ! p) = None \<longleftrightarrow>
            \<not> (\<exists>q<length ps. isInstance (ps ! q) \<and> p \<in> set (ancestors (ps ! q))))"
proof -
  have ex: "(\<exists>sub\<in>set [0..<length ps]. isInstance (ps ! sub) \<and> p \<in> set (ancestors (ps ! sub)))
        \<longleftrightarrow> (\<exists>q<length ps. isInstance (ps ! q) \<and> p \<in> set (ancestors (ps ! q)))"
    by auto
  note f = fold_findBeInstanceOne [OF assms(1), of "[0..<length ps]"]
  from f have "isInstance (findBeInstance ps ! p) = isInstance (ps ! p)"
    by (simp add: findBeInstance_def)
  moreover from f have "beInstance (findBeInstance ps ! p) = None \<longleftrightarrow>
      beInstance (ps ! p) = None \<and>
      \<not> (\<exists>sub\<in>set [0..<length ps]. isInstance (ps ! sub) \<and> p \<in> set (ancestors (ps ! sub)))"
    unfolding findBeInstance_def by blast
  ultimately show ?thesis unfolding ex using assms(2) by blast
qed


text \<open>
  The grammar \<open>instance = a | b ; a = b | d ; b = BKW ; d = DKW ;\<close>, in which the
  instance \<open>a\<close> is a supertype of the instance \<open>b\<close>.
\<close>

theorem findBeInstance_sets_ancestors_of_instances_witness:
  "2 < length (findAllAncestors (findSupertypes (findProdValueAll (yyparse nestedInstances)))) \<and>
   beInstance (findAllAncestors (findSupertypes (findProdValueAll (yyparse nestedInstances))) ! 2)
     = None \<and>
   isInstance (findBeInstance (findAllAncestors (findSupertypes
      (findProdValueAll (yyparse nestedInstances)))) ! 2) \<and>
   beInstance (findBeInstance (findAllAncestors (findSupertypes
      (findProdValueAll (yyparse nestedInstances)))) ! 2) = None"
proof -
  let ?ps = "findAllAncestors (findSupertypes (findProdValueAll (yyparse nestedInstances)))"
  have h: "2 < length ?ps" "beInstance (?ps ! 2) = None"
    by (simp_all add: nestedInstances_def eval_defs)
  have i: "isInstance (?ps ! 2)"
    by (simp add: nestedInstances_def eval_defs)
  have n: "\<not> (\<exists>q<length ?ps. isInstance (?ps ! q) \<and> 2 \<in> set (ancestors (?ps ! q)))"
    by (simp add: nestedInstances_def eval_defs Ex_less_Suc)
  from findBeInstance_sets_ancestors_of_instances [OF h] i n h show ?thesis by blast
qed

text \<open>
  C5 as stated fails on that grammar: after the passes of main up to findBeInstance,
  the production \<open>a\<close> is an instance and its beInstance points at \<open>b\<close>.
\<close>

theorem findBeInstance_instance_counterexample:
  "isInstance (findBeInstance (findAllAncestors (findSupertypes
      (findProdValueAll (yyparse nestedInstances)))) ! 1) \<and>
   beInstance (findBeInstance (findAllAncestors (findSupertypes
      (findProdValueAll (yyparse nestedInstances)))) ! 1) = Some 2"
  by (simp add: nestedInstances_def eval_defs)

subsection \<open>Loops that may stop with a diagnostic\<close>

lemma foldE_snoc:
  "foldE f (xs @ [x]) s = (case foldE f xs s of Inl e \<Rightarrow> Inl e | Inr s' \<Rightarrow> f x s')"
  by (induction xs arbitrary: s) (auto split: sum.splits)

lemma foldE_invariant:
  assumes "P s" and "\<And>x s s'. x \<in> set xs \<Longrightarrow> P s \<Longrightarrow> f x s = Inr s' \<Longrightarrow> P s'"
    and "foldE f xs s = Inr s'"
  shows "P s'"
  using assms
proof (induction xs arbitrary: s)
  case Nil
  then show ?case by simp
next
  case (Cons x xs)
  from Cons.prems(3) obtain s1 where s1: "f x s = Inr s1" "foldE f xs s1 = Inr s'"
    by (auto split: sum.splits)
  have "P s1" using Cons.prems(1,2) s1(1) by auto
  then show ?case using Cons.IH [of s1] Cons.prems(2) s1(2) by auto
qed

lemma foldE_upt_invariant:
  assumes "I 0 s"
    and "\<And>k st st'. k < n \<Longrightarrow> I k st \<Longrightarrow> f k st = Inr st' \<Longrightarrow> I (Suc k) st'"
    and "foldE f [0..<n] s = Inr s'"
  shows "I n s'"
  using assms(2,3)
proof (induction n arbitrary: s')
  case 0
  then show ?case using assms(1) by simp
next
  case (Suc n)
  from Suc.prems(2) obtain st where st: "foldE f [0..<n] s = Inr st" "f n st = Inr s'"
    by (auto simp: foldE_snoc split: sum.splits)
  have "I n st" using Suc.IH [OF _ st(1)] Suc.prems(1) by auto
  then show ?case using Suc.prems(1) [of n st s'] st(2) by auto
qed

lemma foldE_error:
  assumes "foldE f xs s = Inl e"
  shows "\<exists>x\<in>set xs. \<exists>st. f x st = Inl e"
  using assms
  by (induction xs arbitrary: s) (auto split: sum.splits)

subsection \<open>Optional productions\<close>


lemma isOptParent_shape:
  "isOptParent p \<longleftrightarrow>
     (\<exists>e1 e2 c. defs p = [[e1], [e2]] \<and> prodValue e1 = Some c \<and> theType e2 = ONECHAR \<and>
        itemName e2 = ''$'')"
proof
  assume a: "isOptParent p"
  then obtain d1 d2 where ds: "defs p = [d1, d2]"
    by (auto simp: isOptParent_def length_eq_2)
  with a obtain e1 e2 where "d1 = [e1]" "d2 = [e2]"
    by (auto simp: isOptParent_def length_eq_1)
  with a ds show "\<exists>e1 e2 c. defs p = [[e1], [e2]] \<and> prodValue e1 = Some c \<and>
      theType e2 = ONECHAR \<and> itemName e2 = ''$''"
    by (auto simp: isOptParent_def)
next
  assume "\<exists>e1 e2 c. defs p = [[e1], [e2]] \<and> prodValue e1 = Some c \<and> theType e2 = ONECHAR \<and>
        itemName e2 = ''$''"
  then show "isOptParent p" by (auto simp: isOptParent_def)
qed

lemma findOptProdsOne_not: "\<not> isOptParent (st ! parent) \<Longrightarrow> findOptProdsOne parent st = Inr st"
  by (simp add: findOptProdsOne_def)

lemma findOptProdsOne_error:
  "findOptProdsOne parent st = Inl e \<Longrightarrow> e = NoTransferName (lhs (st ! parent))"
  by (auto simp: findOptProdsOne_def Let_def findTransferName_def modify_nth
      split: if_splits option.splits)

lemma findOptProdsOne_length:
  "findOptProdsOne parent st = Inr st' \<Longrightarrow> length st' = length st"
  by (auto simp: findOptProdsOne_def Let_def findTransferName_def
      split: if_splits option.splits)

lemma findOptProdsOne_frame:
  assumes "findOptProdsOne parent st = Inr st'" "q < length st"
  shows "defs (st' ! q) = defs (st ! q) \<and> subtypeOf (st' ! q) = subtypeOf (st ! q) \<and>
         ancestors (st' ! q) = ancestors (st ! q) \<and> lhs (st' ! q) = lhs (st ! q) \<and>
         isInstance (st' ! q) = isInstance (st ! q) \<and> beInstance (st' ! q) = beInstance (st ! q)"
  using assms
  by (auto simp: findOptProdsOne_def Let_def findTransferName_def modify_nth
      split: if_splits option.splits)

lemma findOptProdsOne_roles:
  assumes "findOptProdsOne parent st = Inr st'" and "isOptParent (st ! parent)"
    and "parent < length st" and "childOf (st ! parent) < length st"
    and "childOf (st ! parent) \<noteq> parent"
  shows "(isOptional (st' ! parent) = 1 \<or> isOptional (st' ! parent) = 2) \<and>
         optProd (st' ! parent) = Some (childOf (st ! parent)) \<and>
         isOptional (st' ! childOf (st ! parent)) = 3 \<and>
         optProd (st' ! childOf (st ! parent)) = Some parent \<and>
         (\<forall>q. q \<noteq> parent \<and> q \<noteq> childOf (st ! parent) \<longrightarrow>
            isOptional (st' ! q) = isOptional (st ! q) \<and> optProd (st' ! q) = optProd (st ! q))"
  using assms
  by (auto simp: findOptProdsOne_def Let_def findTransferName_def modify_nth childOf_def
      split: if_splits option.splits)


lemma isOptParent_defs: "defs p = defs p' \<Longrightarrow> isOptParent p = isOptParent p'"
  by (simp add: isOptParent_def)

lemma childOf_defs: "defs p = defs p' \<Longrightarrow> childOf p = childOf p'"
  by (simp add: childOf_def)

text \<open>
  The state of the loop of findOptProds before it looks at the production at position
  \<open>k\<close>, when no optional child has the form of an optional parent.
\<close>

definition optInv :: "production list \<Rightarrow> nat \<Rightarrow> production list \<Rightarrow> bool" where
  "optInv ps k st \<longleftrightarrow>
     length st = length ps \<and>
     (\<forall>q<length ps. defs (st ! q) = defs (ps ! q)) \<and>
     (\<forall>q<length ps. isOptParent (ps ! q) \<longrightarrow>
        (if q < k then (isOptional (st ! q) = 1 \<or> isOptional (st ! q) = 2) \<and>
                       optProd (st ! q) = Some (childOf (ps ! q))
         else isOptional (st ! q) = 0)) \<and>
     (\<forall>q<length ps. \<not> isOptParent (ps ! q) \<longrightarrow>
        (if \<exists>j<k. isOptParent (ps ! j) \<and> childOf (ps ! j) = q then isOptional (st ! q) = 3
         else isOptional (st ! q) = 0))"

lemma optInv_step:
  assumes wf: "\<forall>q<length ps. isOptParent (ps ! q) \<longrightarrow>
                 childOf (ps ! q) < length ps \<and> \<not> isOptParent (ps ! childOf (ps ! q))"
    and k: "k < length ps" and inv: "optInv ps k st"
    and step: "findOptProdsOne k st = Inr st'"
  shows "optInv ps (Suc k) st'"
proof -
  from inv have len: "length st = length ps"
    and dfs: "\<And>q. q < length ps \<Longrightarrow> defs (st ! q) = defs (ps ! q)"
    and par: "\<And>q. q < length ps \<Longrightarrow> isOptParent (ps ! q) \<Longrightarrow>
        (if q < k then (isOptional (st ! q) = 1 \<or> isOptional (st ! q) = 2) \<and>
                       optProd (st ! q) = Some (childOf (ps ! q))
         else isOptional (st ! q) = 0)"
    and oth: "\<And>q. q < length ps \<Longrightarrow> \<not> isOptParent (ps ! q) \<Longrightarrow>
        (if \<exists>j<k. isOptParent (ps ! j) \<and> childOf (ps ! j) = q then isOptional (st ! q) = 3
         else isOptional (st ! q) = 0)"
    by (simp_all add: optInv_def)
  have shape: "isOptParent (st ! k) = isOptParent (ps ! k)"
    using dfs [OF k] by (rule isOptParent_defs)
  have child: "childOf (st ! k) = childOf (ps ! k)"
    using dfs [OF k] by (rule childOf_defs)
  show ?thesis
  proof (cases "isOptParent (ps ! k)")
    case False
    then have st': "st' = st" using step shape by (simp add: findOptProdsOne_not)
    have ex: "(\<exists>j<Suc k. isOptParent (ps ! j) \<and> childOf (ps ! j) = q)
              \<longleftrightarrow> (\<exists>j<k. isOptParent (ps ! j) \<and> childOf (ps ! j) = q)" for q
      using False less_Suc_eq by auto
    have lt: "q < Suc k \<longleftrightarrow> q < k" if "isOptParent (ps ! q)" for q
      using that False less_Suc_eq by auto
    show ?thesis
      unfolding optInv_def st' ex using len dfs par oth lt by simp
  next
    case True
    let ?c = "childOf (ps ! k)"
    from wf k True have c: "?c < length ps" "\<not> isOptParent (ps ! ?c)" by auto
    then have ck: "?c \<noteq> k" using True by auto
    from step have len': "length st' = length ps"
      using len by (simp add: findOptProdsOne_length)
    have dfs': "defs (st' ! q) = defs (ps ! q)" if "q < length ps" for q
      using findOptProdsOne_frame [OF step, of q] that len dfs by simp
    note roles = findOptProdsOne_roles [OF step, unfolded shape child, OF True]
    have r: "isOptional (st' ! k) = 1 \<or> isOptional (st' ! k) = 2"
      "optProd (st' ! k) = Some ?c" "isOptional (st' ! ?c) = 3"
      "\<And>q. q \<noteq> k \<Longrightarrow> q \<noteq> ?c \<Longrightarrow> isOptional (st' ! q) = isOptional (st ! q) \<and>
          optProd (st' ! q) = optProd (st ! q)"
      using roles k c(1) ck len by auto
    have par': "if q < Suc k then (isOptional (st' ! q) = 1 \<or> isOptional (st' ! q) = 2) \<and>
                       optProd (st' ! q) = Some (childOf (ps ! q))
         else isOptional (st' ! q) = 0"
      if q: "q < length ps" "isOptParent (ps ! q)" for q
    proof (cases "q = k")
      case True
      then show ?thesis using r(1,2) by simp
    next
      case False
      moreover have "q \<noteq> ?c" using q(2) c(2) by auto
      ultimately have "isOptional (st' ! q) = isOptional (st ! q)"
        "optProd (st' ! q) = optProd (st ! q)" using r(4) by auto
      moreover have "q < Suc k \<longleftrightarrow> q < k" using False by auto
      ultimately show ?thesis using par [OF q] by simp
    qed
    have oth': "if \<exists>j<Suc k. isOptParent (ps ! j) \<and> childOf (ps ! j) = q
                then isOptional (st' ! q) = 3 else isOptional (st' ! q) = 0"
      if q: "q < length ps" "\<not> isOptParent (ps ! q)" for q
    proof (cases "q = ?c")
      case True
      then have "\<exists>j<Suc k. isOptParent (ps ! j) \<and> childOf (ps ! j) = q"
        using \<open>isOptParent (ps ! k)\<close> by auto
      then show ?thesis using r(3) True by simp
    next
      case False
      moreover have "q \<noteq> k" using q(2) \<open>isOptParent (ps ! k)\<close> by auto
      ultimately have same: "isOptional (st' ! q) = isOptional (st ! q)" using r(4) by auto
      have "(\<exists>j<Suc k. isOptParent (ps ! j) \<and> childOf (ps ! j) = q)
            \<longleftrightarrow> (\<exists>j<k. isOptParent (ps ! j) \<and> childOf (ps ! j) = q)"
        using False less_Suc_eq by auto
      then show ?thesis using oth [OF q] same by simp
    qed
    show ?thesis
      unfolding optInv_def using len' dfs' par' oth' by simp
  qed
qed

text \<open>
  C7, as the code has it. When every production starts with no optional role and no
  optional child has itself the form of an optional parent, then after a run of
  findOptProds that ends without a diagnostic a production has the role 3 (child)
  exactly when some production with role 1 or 2 (parent) has it as its optProd.
\<close>

theorem findOptProds_duality:
  assumes init: "\<forall>q<length ps. isOptional (ps ! q) = 0"
    and wf: "\<forall>q<length ps. isOptParent (ps ! q) \<longrightarrow>
               childOf (ps ! q) < length ps \<and> \<not> isOptParent (ps ! childOf (ps ! q))"
    and run: "findOptProds ps = Inr ps'"
    and p: "p < length ps"
  shows "isOptional (ps' ! p) = 3 \<longleftrightarrow>
         (\<exists>q<length ps. (isOptional (ps' ! q) = 1 \<or> isOptional (ps' ! q) = 2) \<and>
                         optProd (ps' ! q) = Some p)"
proof -
  have inv: "optInv ps (length ps) ps'"
  proof (rule foldE_upt_invariant [where I = "optInv ps" and f = findOptProdsOne and s = ps])
    show "optInv ps 0 ps" using init by (simp add: optInv_def)
  next
    fix k st st'
    assume "k < length ps" "optInv ps k st" "findOptProdsOne k st = Inr st'"
    then show "optInv ps (Suc k) st'" by (rule optInv_step [OF wf])
  next
    show "foldE findOptProdsOne [0..<length ps] ps = Inr ps'"
      using run by (simp add: findOptProds_def)
  qed
  from inv have par: "\<And>q. q < length ps \<Longrightarrow> isOptParent (ps ! q) \<Longrightarrow>
        (isOptional (ps' ! q) = 1 \<or> isOptional (ps' ! q) = 2) \<and>
        optProd (ps' ! q) = Some (childOf (ps ! q))"
    and oth: "\<And>q. q < length ps \<Longrightarrow> \<not> isOptParent (ps ! q) \<Longrightarrow>
        (if \<exists>j<length ps. isOptParent (ps ! j) \<and> childOf (ps ! j) = q
         then isOptional (ps' ! q) = 3 else isOptional (ps' ! q) = 0)"
    by (simp_all add: optInv_def)
  show ?thesis
  proof
    assume three: "isOptional (ps' ! p) = 3"
    then have np: "\<not> isOptParent (ps ! p)" using par [OF p] by auto
    with oth [OF p] three obtain j where "j < length ps" "isOptParent (ps ! j)"
      "childOf (ps ! j) = p" by (auto split: if_splits)
    then show "\<exists>q<length ps. (isOptional (ps' ! q) = 1 \<or> isOptional (ps' ! q) = 2) \<and>
                         optProd (ps' ! q) = Some p"
      using par [of j] by auto
  next
    assume "\<exists>q<length ps. (isOptional (ps' ! q) = 1 \<or> isOptional (ps' ! q) = 2) \<and>
                         optProd (ps' ! q) = Some p"
    then obtain q where q: "q < length ps" "isOptional (ps' ! q) = 1 \<or> isOptional (ps' ! q) = 2"
      "optProd (ps' ! q) = Some p" by auto
    have sq: "isOptParent (ps ! q)"
    proof (rule ccontr)
      assume "\<not> isOptParent (ps ! q)"
      from oth [OF q(1) this] have "isOptional (ps' ! q) = 3 \<or> isOptional (ps' ! q) = 0"
        by (simp split: if_splits)
      with q(2) show False by auto
    qed
    then have cp: "childOf (ps ! q) = p" using par [OF q(1)] q(3) by simp
    have "\<not> isOptParent (ps ! childOf (ps ! q))" using wf q(1) sq by auto
    then have np: "\<not> isOptParent (ps ! p)" using cp by simp
    have ex: "\<exists>j<length ps. isOptParent (ps ! j) \<and> childOf (ps ! j) = p"
      using q(1) sq cp by blast
    show "isOptional (ps' ! p) = 3"
      using oth [OF p np] ex by simp
  qed
qed


lemmas eval_opt_defs = bindAndClassify_def findOptProds_def findOptProdsOne_def isOptParent_def
  childOf_def modify_def findTransferName_def

theorem findOptProds_duality_witness:
  "(1::nat) < length (bindAndClassify optionalDirection) \<and>
   isOptional (projr (findOptProds (bindAndClassify optionalDirection)) ! 1) = 3 \<and>
   isOptional (projr (findOptProds (bindAndClassify optionalDirection)) ! 0) = 2 \<and>
   optProd (projr (findOptProds (bindAndClassify optionalDirection)) ! 0) = Some 1"
proof -
  let ?ps = "bindAndClassify optionalDirection"
  have len: "length ?ps = Suc (Suc 0)"
    by (simp add: optionalDirection_def eval_defs eval_opt_defs)
  have init: "\<forall>q<length ?ps. isOptional (?ps ! q) = 0"
    unfolding len All_less_Suc by (simp add: optionalDirection_def eval_defs eval_opt_defs)
  have wf: "\<forall>q<length ?ps. isOptParent (?ps ! q) \<longrightarrow>
               childOf (?ps ! q) < length ?ps \<and> \<not> isOptParent (?ps ! childOf (?ps ! q))"
    unfolding len All_less_Suc by (simp add: optionalDirection_def eval_defs eval_opt_defs)
  obtain ps' where run: "findOptProds ?ps = Inr ps'"
    by (simp add: optionalDirection_def eval_defs eval_opt_defs)
  have p: "1 < length ?ps" by (simp add: len)
  have q: "isOptional (ps' ! 0) = 2" "optProd (ps' ! 0) = Some 1"
    using run by (auto simp add: optionalDirection_def eval_defs eval_opt_defs)
  have "\<exists>q<length ?ps. (isOptional (ps' ! q) = 1 \<or> isOptional (ps' ! q) = 2) \<and>
          optProd (ps' ! q) = Some 1"
    using q len by auto
  with findOptProds_duality [OF init wf run p] have "isOptional (ps' ! 1) = 3" by simp
  with p q run show ?thesis by simp
qed

text \<open>
  C7 as stated fails on the chain \<open>optA = optB | '$' ; optB = x | '$' ; x = X ;\<close>:
  after the run \<open>optA\<close> is an optional parent (role 2) whose optProd is \<open>optB\<close>, and the
  role of \<open>optB\<close> is not 3 but 2, the role it got as the parent of \<open>x\<close>.
\<close>

theorem findOptProds_duality_counterexample:
  "isOptional (projr (findOptProds (bindAndClassify optionalChain)) ! 0) = 2 \<and>
   optProd (projr (findOptProds (bindAndClassify optionalChain)) ! 0) = Some 1 \<and>
   isOptional (projr (findOptProds (bindAndClassify optionalChain)) ! 1) = 2 \<and>
   \<not> isl (findOptProds (bindAndClassify optionalChain))"
  by (simp add: optionalChain_def eval_defs eval_opt_defs)

subsection \<open>What each pass leaves alone\<close>

text \<open>
  For a pass and a function \<open>F\<close> of a production that does not depend on the fields
  the pass writes, the list of the values of \<open>F\<close> is the same before and after.
\<close>

lemma userLoop_map:
  assumes "\<And>x v. F (x\<lparr>defs := v\<rparr>) = F x"
  shows "map F (userLoop k l u ps) = map F ps"
  by (induction ps arbitrary: u) (simp_all add: assms)

lemma findProdValueAll_map:
  assumes "\<And>x v. F (x\<lparr>defs := v\<rparr>) = F x"
  shows "map F (findProdValueAll ps) = map F ps"
  unfolding findProdValueAll_def
  by (rule fold_invariant [where P = "\<lambda>st. map F st = map F ps"])
     (simp_all add: findProdValueOne_def userLoop_map assms)

lemma findSupertypesOne_map:
  assumes "\<And>x v. F (x\<lparr>isSupertype := v\<rparr>) = F x" "\<And>x v. F (x\<lparr>isInstance := v\<rparr>) = F x"
    "\<And>x v. F (x\<lparr>subtypeOf := v\<rparr>) = F x"
  shows "map F (findSupertypesOne st prd) = map F st"
proof -
  have a: "map F (fold markInstance subs st1) = map F st1" for subs st1
    by (rule fold_invariant [where P = "\<lambda>s. map F s = map F st1"])
       (simp_all add: markInstance_def assms)
  have b: "map F (fold (addSupertype prd) subs st1) = map F st1" for subs st1
    by (rule fold_invariant [where P = "\<lambda>s. map F s = map F st1"])
       (simp_all add: addSupertype_def assms)
  show ?thesis
    by (simp add: findSupertypesOne_def Let_def a b assms)
qed

lemma findSupertypes_map:
  assumes "\<And>x v. F (x\<lparr>isSupertype := v\<rparr>) = F x" "\<And>x v. F (x\<lparr>isInstance := v\<rparr>) = F x"
    "\<And>x v. F (x\<lparr>subtypeOf := v\<rparr>) = F x"
  shows "map F (findSupertypes ps) = map F ps"
  unfolding findSupertypes_def
  by (rule fold_invariant [where P = "\<lambda>st. map F st = map F ps"])
     (simp_all add: findSupertypesOne_map assms)

lemma findAllAncestors_map:
  assumes "\<And>x v. F (x\<lparr>ancestors := v\<rparr>) = F x"
  shows "map F (findAllAncestors ps) = map F ps"
  unfolding findAllAncestors_def
  by (rule fold_invariant [where P = "\<lambda>st. map F st = map F ps"])
     (simp_all add: assms)

lemma findBeInstance_map:
  assumes "\<And>x v. F (x\<lparr>beInstance := v\<rparr>) = F x"
  shows "map F (findBeInstance ps) = map F ps"
proof -
  have a: "map F (fold (setBeInstance sub) supers st1) = map F st1" for sub supers st1
    by (rule fold_invariant [where P = "\<lambda>s. map F s = map F st1"])
       (simp_all add: setBeInstance_def assms)
  show ?thesis
    unfolding findBeInstance_def
    by (rule fold_invariant [where P = "\<lambda>st. map F st = map F ps"])
       (simp_all add: findBeInstanceOne_def a)
qed

lemma findOptProdsOne_map:
  assumes "\<And>x v. F (x\<lparr>isOptional := v\<rparr>) = F x" "\<And>x v. F (x\<lparr>optProd := v\<rparr>) = F x"
    "\<And>x v. F (x\<lparr>transferName := v\<rparr>) = F x"
    and "findOptProdsOne parent st = Inr st'"
  shows "map F st' = map F st"
  using assms(4)
  by (auto simp: findOptProdsOne_def Let_def findTransferName_def assms(1-3)
      split: if_splits option.splits)

lemma findOptProds_map:
  assumes "\<And>x v. F (x\<lparr>isOptional := v\<rparr>) = F x" "\<And>x v. F (x\<lparr>optProd := v\<rparr>) = F x"
    "\<And>x v. F (x\<lparr>transferName := v\<rparr>) = F x"
    and "findOptProds ps = Inr ps'"
  shows "map F ps' = map F ps"
proof (rule foldE_invariant [where P = "\<lambda>st. map F st = map F ps" and f = findOptProdsOne
        and xs = "[0..<length ps]" and s = ps])
  show "map F ps = map F ps" by simp
next
  fix x s s' assume "map F s = map F ps" "findOptProdsOne x s = Inr s'"
  then show "map F s' = map F ps" using findOptProdsOne_map [OF assms(1-3), of x s s'] by simp
next
  show "foldE findOptProdsOne [0..<length ps] ps = Inr ps'"
    using assms(4) by (simp add: findOptProds_def)
qed

lemma readAttLine_map:
  assumes "\<And>x v. F (x\<lparr>myAtts := v\<rparr>) = F x" "\<And>x v. F (x\<lparr>attNames := v\<rparr>) = F x"
    and "readAttLine line ps = Inr ps'"
  shows "map F ps' = map F ps"
  using assms(3) by (auto simp: readAttLine_def assms(1,2) split: option.splits)

lemma findMyAtts_map:
  assumes "\<And>x v. F (x\<lparr>myAtts := v\<rparr>) = F x" "\<And>x v. F (x\<lparr>attNames := v\<rparr>) = F x"
    and "findMyAtts block ps = Inr ps'"
  shows "map F ps' = map F ps"
proof -
  from assms(3) obtain lines where "foldE readAttLine lines ps = Inr ps'"
    by (auto simp: findMyAtts_def split: attBlock.splits sum.splits)
  then show ?thesis
  proof (rule foldE_invariant [where P = "\<lambda>st. map F st = map F ps" and f = readAttLine
          and xs = lines and s = ps, rotated 2])
    show "map F ps = map F ps" by simp
  next
    fix x s s' assume a: "map F s = map F ps" "readAttLine x s = Inr s'"
    from readAttLine_map [OF assms(1,2) a(2)] a(1) show "map F s' = map F ps" by (rule trans)
  qed
qed

lemma findAttNamesOne_map:
  assumes "\<And>x v. F (x\<lparr>attNames := v\<rparr>) = F x"
  shows "findAttNamesOne fuel super ds st = Some (Inr st') \<Longrightarrow> map F st' = map F st"
proof (induction fuel super ds st arbitrary: st' rule: findAttNamesOne.induct)
  case (1 fuel super st)
  then show ?case by simp
next
  case (2 fuel super d ds st)
  from "2.prems" obtain e es where d: "d = e # es"
    by (cases d) auto
  from "2.prems" d obtain sub where sub: "prodValue e = Some sub"
    by (cases "prodValue e") auto
  define st1 where "st1 = (if attNames (st ! sub) = []
                         then modify sub
                                (\<lambda>p. p\<lparr>attNames := attNames (st ! super) @ myAtts p\<rparr>) st
                         else st)"
  have m1: "map F st1 = map F st" by (simp add: st1_def assms)
  show ?case
  proof (cases "isSupertype (st1 ! sub)")
    case False
    with "2.prems" d sub have "findAttNamesOne fuel super ds st1 = Some (Inr st')"
      by (simp add: st1_def Let_def)
    from "2.IH"(3) [OF d sub st1_def False this] m1 show ?thesis by simp
  next
    case True
    with "2.prems" d sub obtain fuel' where fuel: "fuel = Suc fuel'"
      by (cases fuel) (auto simp: st1_def Let_def)
    with "2.prems" d sub True obtain st2
      where st2: "findAttNamesOne fuel' sub (defs (st1 ! sub)) st1 = Some (Inr st2)"
        and rest: "findAttNamesOne fuel super ds st2 = Some (Inr st')"
      by (auto simp: st1_def Let_def split: option.splits sum.splits)
    from "2.IH"(1) [OF d sub st1_def True fuel st2] have m2: "map F st2 = map F st1" .
    from "2.IH"(2) [OF d sub st1_def True fuel st2 refl rest] have "map F st' = map F st2" .
    with m1 m2 show ?thesis by simp
  qed
qed

lemma findAttNamesTop_map:
  assumes "\<And>x v. F (x\<lparr>attNames := v\<rparr>) = F x"
    and "findAttNamesTop fuel prd st = Some (Inr st')"
  shows "map F st' = map F st"
proof -
  have m: "map F (modify prd (\<lambda>p. p\<lparr>attNames := attNames p @ myAtts p\<rparr>) st) = map F st"
    by (simp add: assms(1))
  from assms(2) show ?thesis
    using findAttNamesOne_map [OF assms(1)] m
    by (auto simp: findAttNamesTop_def Let_def split: if_splits)
qed

lemma findAttNamesLoop_map:
  assumes "\<And>x v. F (x\<lparr>attNames := v\<rparr>) = F x"
  shows "findAttNamesLoop fuel prds st = Some (Inr st') \<Longrightarrow> map F st' = map F st"
proof (induction prds arbitrary: st)
  case Nil
  then show ?case by simp
next
  case (Cons prd prds)
  from Cons.prems obtain st1 where 1: "findAttNamesTop fuel prd st = Some (Inr st1)"
    and 2: "findAttNamesLoop fuel prds st1 = Some (Inr st')"
    by (auto split: option.splits sum.splits)
  from Cons.IH [OF 2] findAttNamesTop_map [OF assms 1] show ?case by simp
qed

lemma findAttNamesAll_map:
  assumes "\<And>x v. F (x\<lparr>attNames := v\<rparr>) = F x"
    and "findAttNamesAll fuel ps = Some (Inr ps')"
  shows "map F ps' = map F ps"
  using assms(2) findAttNamesLoop_map [OF assms(1)] by (simp add: findAttNamesAll_def)

lemma findMyExpsOne_map:
  assumes "\<And>x v. F (x\<lparr>myExps := v\<rparr>) = F x"
    and "findMyExpsOne prd st = Inr st'"
  shows "map F st' = map F st"
  using assms(2)
  by (auto simp: findMyExpsOne_def Let_def assms(1)
      split: list.splits sum.splits prod.splits)

lemma findMyExps_map:
  assumes "\<And>x v. F (x\<lparr>myExps := v\<rparr>) = F x"
    and "findMyExps ps = Inr ps'"
  shows "map F ps' = map F ps"
proof (rule foldE_invariant [where P = "\<lambda>st. map F st = map F ps" and f = findMyExpsOne
        and xs = "[0..<length ps]" and s = ps])
  show "map F ps = map F ps" by simp
next
  fix x s s' assume a: "map F s = map F ps" "findMyExpsOne x s = Inr s'"
  from findMyExpsOne_map [OF assms(1) a(2)] a(1) show "map F s' = map F ps" by (rule trans)
next
  show "foldE findMyExpsOne [0..<length ps] ps = Inr ps'"
    using assms(2) by (simp add: findMyExps_def)
qed

subsection \<open>Supertypes and optional parents (C10)\<close>

text \<open>
  The part of the supertype test that looks at the definitions only: every definition
  is one expression, a nonterminal. A production of this form fails the test
  findOptProds makes, whose last definition is a single character.
\<close>

definition singleNonterminals :: "production \<Rightarrow> bool" where
  "singleNonterminals p = list_all (\<lambda>d. length d = 1 \<and> theType (hd d) = NONTERMINAL) (defs p)"

lemma singleNonterminals_not_isOptParent: "singleNonterminals p \<Longrightarrow> \<not> isOptParent p"
proof
  assume sn: "singleNonterminals p" and op: "isOptParent p"
  from op have "defs p \<noteq> []" "theType (hd (last (defs p))) = ONECHAR"
    by (auto simp: isOptParent_def)
  moreover from this(1) have "last (defs p) \<in> set (defs p)" by simp
  ultimately show False using sn by (auto simp: singleNonterminals_def list_all_iff)
qed

lemma isSubtypeDef_singleNonterminals:
  "list_all (isSubtypeDef st) (defs p) \<Longrightarrow> singleNonterminals p"
  by (auto simp: singleNonterminals_def isSubtypeDef_def list_all_iff)

lemma singleNonterminals_defs: "defs p = defs p' \<Longrightarrow> singleNonterminals p = singleNonterminals p'"
  by (simp add: singleNonterminals_def)

text \<open>The members of every subtypeOf list are positions of productions of that form.\<close>

definition supersOk :: "production list \<Rightarrow> bool" where
  "supersOk st \<longleftrightarrow>
     (\<forall>q<length st. \<forall>s\<in>set (subtypeOf (st ! q)). s < length st \<and> singleNonterminals (st ! s))"

definition ancestorsOk :: "production list \<Rightarrow> bool" where
  "ancestorsOk st \<longleftrightarrow>
     (\<forall>q<length st. \<forall>s\<in>set (ancestors (st ! q)). s < length st \<and> singleNonterminals (st ! s))"

lemma supersOk_cong:
  assumes "map subtypeOf st' = map subtypeOf st" "map defs st' = map defs st"
  shows "supersOk st' = supersOk st"
proof -
  have len: "length st' = length st" using assms(1) by (rule map_eq_imp_length_eq)
  have "subtypeOf (st' ! q) = subtypeOf (st ! q)" if "q < length st" for q
    using that assms(1) len by (metis nth_map)
  moreover have "singleNonterminals (st' ! q) = singleNonterminals (st ! q)" if "q < length st" for q
  proof -
    have "defs (st' ! q) = defs (st ! q)" using that assms(2) len by (metis nth_map)
    then show ?thesis by (rule singleNonterminals_defs)
  qed
  ultimately show ?thesis unfolding supersOk_def len by auto
qed

lemma ancestorsOk_cong:
  assumes "map ancestors st' = map ancestors st" "map defs st' = map defs st"
  shows "ancestorsOk st' = ancestorsOk st"
proof -
  have len: "length st' = length st" using assms(1) by (rule map_eq_imp_length_eq)
  have "ancestors (st' ! q) = ancestors (st ! q)" if "q < length st" for q
    using that assms(1) len by (metis nth_map)
  moreover have "singleNonterminals (st' ! q) = singleNonterminals (st ! q)" if "q < length st" for q
  proof -
    have "defs (st' ! q) = defs (st ! q)" using that assms(2) len by (metis nth_map)
    then show ?thesis by (rule singleNonterminals_defs)
  qed
  ultimately show ?thesis unfolding ancestorsOk_def len by auto
qed

lemma modify_supersOk:
  assumes "supersOk st" and "\<And>x. defs (g x) = defs x"
    and "\<And>x. set (subtypeOf (g x)) \<subseteq> set (subtypeOf x) \<union> {s. s < length st \<and> singleNonterminals (st ! s)}"
  shows "supersOk (modify p g st)"
proof -
  have sn: "singleNonterminals (modify p g st ! s) = singleNonterminals (st ! s)" for s
    by (rule singleNonterminals_defs) (simp add: modify_nth assms(2))
  show ?thesis
    unfolding supersOk_def sn
  proof (intro allI impI ballI)
    fix q s assume q: "q < length (modify p g st)" and s: "s \<in> set (subtypeOf (modify p g st ! q))"
    show "s < length (modify p g st) \<and> singleNonterminals (st ! s)"
    proof (cases "q = p \<and> p < length st")
      case True
      with s have "s \<in> set (subtypeOf (g (st ! p)))" by (simp add: modify_nth)
      with assms(3) [of "st ! p"] have "s \<in> set (subtypeOf (st ! p)) \<or>
          (s < length st \<and> singleNonterminals (st ! s))" by auto
      with assms(1) True show ?thesis by (auto simp: supersOk_def)
    next
      case False
      with s have "s \<in> set (subtypeOf (st ! q))" by (simp add: modify_nth)
      with assms(1) q show ?thesis by (auto simp: supersOk_def)
    qed
  qed
qed

lemma findSupertypesOne_supersOk:
  assumes "supersOk st" "prd < length st"
  shows "supersOk (findSupertypesOne st prd)"
proof (cases "list_all (isSubtypeDef st) (defs (st ! prd))")
  case False
  then show ?thesis using assms by (simp add: findSupertypesOne_def)
next
  case True
  define st1 where "st1 = modify prd (\<lambda>p. p\<lparr>isSupertype := True\<rparr>) st"
  have ok1: "supersOk st1"
    unfolding st1_def by (rule modify_supersOk [OF assms(1)]) simp_all
  have len1: "length st1 = length st" by (simp add: st1_def)
  have sn1: "singleNonterminals (st1 ! prd)"
  proof -
    have "defs (st1 ! prd) = defs (st ! prd)" by (simp add: st1_def modify_nth)
    then have "singleNonterminals (st1 ! prd) = singleNonterminals (st ! prd)"
      by (rule singleNonterminals_defs)
    then show ?thesis using isSubtypeDef_singleNonterminals [OF True] by simp
  qed
  let ?P = "\<lambda>s. supersOk s \<and> length s = length st \<and> singleNonterminals (s ! prd)"
  have a: "?P (fold markInstance subs st1)" for subs
  proof (rule fold_invariant [where P = ?P])
    show "?P st1" using ok1 len1 sn1 by simp
  next
    fix x s assume "?P s"
    then show "?P (markInstance x s)"
      unfolding markInstance_def
      by (auto intro!: modify_supersOk simp: modify_nth singleNonterminals_def)
  qed
  have b: "?P (fold (addSupertype prd) subs st1)" for subs
  proof (rule fold_invariant [where P = ?P])
    show "?P st1" using ok1 len1 sn1 by simp
  next
    fix x s assume "?P s"
    then show "?P (addSupertype prd x s)"
      unfolding addSupertype_def using assms(2)
      by (auto intro!: modify_supersOk simp: modify_nth singleNonterminals_def)
  qed
  show ?thesis
    using True a b by (simp add: findSupertypesOne_def Let_def st1_def)
qed

lemma findSupertypesOne_length [simp]: "length (findSupertypesOne st prd) = length st"
  using findSupertypesOne_map [of "\<lambda>x. ()" st prd] map_eq_imp_length_eq by fastforce

lemma findSupertypes_supersOk:
  assumes "supersOk ps"
  shows "supersOk (findSupertypes ps)"
proof -
  have "supersOk (fold (\<lambda>prd st. findSupertypesOne st prd) [0..<length ps] ps) \<and>
        length (fold (\<lambda>prd st. findSupertypesOne st prd) [0..<length ps] ps) = length ps"
    by (rule fold_invariant [where P = "\<lambda>st. supersOk st \<and> length st = length ps"])
       (auto simp: assms findSupertypesOne_supersOk)
  then show ?thesis by (simp add: findSupertypes_def)
qed


lemma supersOk_D:
  "supersOk st \<Longrightarrow> q < length st \<Longrightarrow> s \<in> set (subtypeOf (st ! q)) \<Longrightarrow>
     s < length st \<and> singleNonterminals (st ! s)"
  unfolding supersOk_def by blast

lemma findAncestors_members:
  "supersOk ps \<Longrightarrow>
   (\<forall>c\<in>set cells. c < length ps \<and> singleNonterminals (ps ! c)) \<Longrightarrow>
   (\<forall>a\<in>set ancesti. a < length ps \<and> singleNonterminals (ps ! a)) \<Longrightarrow>
   (\<forall>a\<in>set (findAncestors ps cells ancesti). a < length ps \<and> singleNonterminals (ps ! a))"
proof (induction ps cells ancesti rule: findAncestors.induct)
  case (1 ps ancesti)
  then show ?case by simp
next
  case (2 ps super cells ancesti)
  show ?case
  proof (cases "super < length ps \<and> super \<notin> set ancesti \<and>
         isOptional (ps ! super) \<noteq> 1 \<and> isOptional (ps ! super) \<noteq> 2")
    case True
    have "c < length ps \<and> singleNonterminals (ps ! c)" if "c \<in> set (subtypeOf (ps ! super))" for c
      using supersOk_D [OF "2.prems"(1) _ that] True by simp
    then have c: "\<forall>c\<in>set (subtypeOf (ps ! super) @ cells). c < length ps \<and> singleNonterminals (ps ! c)"
      using "2.prems"(2) by auto
    have a: "\<forall>a\<in>set (ancesti @ [super]). a < length ps \<and> singleNonterminals (ps ! a)"
      using "2.prems"(2,3) by auto
    from "2.IH"(1) [OF True "2.prems"(1) c a] True show ?thesis by simp
  next
    case False
    have c: "\<forall>c\<in>set cells. c < length ps \<and> singleNonterminals (ps ! c)"
      using "2.prems"(2) by auto
    from "2.IH"(2) [OF False "2.prems"(1) c "2.prems"(3)] False show ?thesis by auto
  qed
qed

text \<open>A production with the role of an optional parent passes the test of findOptProds.\<close>

definition rolesOk :: "production list \<Rightarrow> bool" where
  "rolesOk st \<longleftrightarrow>
     (\<forall>q<length st. isOptional (st ! q) = 1 \<or> isOptional (st ! q) = 2 \<longrightarrow> isOptParent (st ! q))"

lemma rolesOk_cong:
  assumes "map isOptional st' = map isOptional st" "map defs st' = map defs st"
  shows "rolesOk st' = rolesOk st"
proof -
  have len: "length st' = length st" using assms(1) by (rule map_eq_imp_length_eq)
  show ?thesis
    unfolding rolesOk_def len
  proof (rule all_cong1, rule imp_cong [OF refl])
    fix q assume q: "q < length st"
    have o: "isOptional (st' ! q) = isOptional (st ! q)"
      using q assms(1) len by (metis nth_map)
    have "defs (st' ! q) = defs (st ! q)" using q assms(2) len by (metis nth_map)
    then have "isOptParent (st' ! q) = isOptParent (st ! q)" by (rule isOptParent_defs)
    then show "(isOptional (st' ! q) = 1 \<or> isOptional (st' ! q) = 2 \<longrightarrow> isOptParent (st' ! q))
      = (isOptional (st ! q) = 1 \<or> isOptional (st ! q) = 2 \<longrightarrow> isOptParent (st ! q))"
      unfolding o by simp
  qed
qed

text \<open>The three facts together.\<close>

definition latticeOk :: "production list \<Rightarrow> bool" where
  "latticeOk st \<longleftrightarrow> supersOk st \<and> ancestorsOk st \<and> rolesOk st"

lemma map_tuple4:
  assumes "map (\<lambda>p. (f1 p, f2 p, f3 p, f4 p)) st' = map (\<lambda>p. (f1 p, f2 p, f3 p, f4 p)) st"
  shows "map f1 st' = map f1 st" "map f2 st' = map f2 st" "map f3 st' = map f3 st"
    "map f4 st' = map f4 st"
proof -
  have "map (fst \<circ> (\<lambda>p. (f1 p, f2 p, f3 p, f4 p))) st' = map (fst \<circ> (\<lambda>p. (f1 p, f2 p, f3 p, f4 p))) st"
    unfolding map_map [symmetric] assms ..
  then show "map f1 st' = map f1 st" by (simp add: comp_def)
  have "map (fst \<circ> snd \<circ> (\<lambda>p. (f1 p, f2 p, f3 p, f4 p))) st'
        = map (fst \<circ> snd \<circ> (\<lambda>p. (f1 p, f2 p, f3 p, f4 p))) st"
    unfolding map_map [symmetric] assms ..
  then show "map f2 st' = map f2 st" by (simp add: comp_def)
  have "map (fst \<circ> snd \<circ> snd \<circ> (\<lambda>p. (f1 p, f2 p, f3 p, f4 p))) st'
        = map (fst \<circ> snd \<circ> snd \<circ> (\<lambda>p. (f1 p, f2 p, f3 p, f4 p))) st"
    unfolding map_map [symmetric] assms ..
  then show "map f3 st' = map f3 st" by (simp add: comp_def)
  have "map (snd \<circ> snd \<circ> snd \<circ> (\<lambda>p. (f1 p, f2 p, f3 p, f4 p))) st'
        = map (snd \<circ> snd \<circ> snd \<circ> (\<lambda>p. (f1 p, f2 p, f3 p, f4 p))) st"
    unfolding map_map [symmetric] assms ..
  then show "map f4 st' = map f4 st" by (simp add: comp_def)
qed

lemma latticeOk_cong:
  assumes "map (\<lambda>p. (subtypeOf p, ancestors p, isOptional p, defs p)) st'
           = map (\<lambda>p. (subtypeOf p, ancestors p, isOptional p, defs p)) st"
  shows "latticeOk st' = latticeOk st"
proof -
  note m = map_tuple4 [OF assms]
  show ?thesis
    unfolding latticeOk_def supersOk_cong [OF m(1,4)] ancestorsOk_cong [OF m(2,4)]
      rolesOk_cong [OF m(3,4)] ..
qed

lemma ancestorsOk_D:
  "ancestorsOk st \<Longrightarrow> q < length st \<Longrightarrow> s \<in> set (ancestors (st ! q)) \<Longrightarrow>
     s < length st \<and> singleNonterminals (st ! s)"
  unfolding ancestorsOk_def by blast

lemma latticeOk_member:
  assumes "latticeOk st" "p < length st"
    and "s \<in> set (subtypeOf (st ! p)) \<union> set (ancestors (st ! p))"
  shows "isOptional (st ! s) \<noteq> 1 \<and> isOptional (st ! s) \<noteq> 2"
proof -
  from assms(1) have ok: "supersOk st" "ancestorsOk st" "rolesOk st"
    unfolding latticeOk_def by blast+
  from ok(3) have role: "\<And>q. q < length st \<Longrightarrow> isOptional (st ! q) = 1 \<or> isOptional (st ! q) = 2
                 \<Longrightarrow> isOptParent (st ! q)"
    unfolding rolesOk_def by blast
  from assms(3) have s: "s < length st \<and> singleNonterminals (st ! s)"
  proof
    assume "s \<in> set (subtypeOf (st ! p))"
    then show ?thesis using supersOk_D [OF ok(1) assms(2)] by simp
  next
    assume "s \<in> set (ancestors (st ! p))"
    then show ?thesis using ancestorsOk_D [OF ok(2) assms(2)] by simp
  qed
  then have "\<not> isOptParent (st ! s)" by (simp add: singleNonterminals_not_isOptParent)
  with role [of s] s show ?thesis by blast
qed

text \<open>The productions as the parser leaves them, in the fields the later passes fill.\<close>

definition fresh :: "production list \<Rightarrow> bool" where
  "fresh st \<longleftrightarrow> (\<forall>p\<in>set st. (subtypeOf p, ancestors p, isOptional p) = ([], [], 0))"

lemma fresh_yyparse: "fresh (yyparse rules)"
  by (auto simp: fresh_def yyparse_def newProduction_def)

lemma fresh_cong:
  assumes "map (\<lambda>p. (subtypeOf p, ancestors p, isOptional p)) st'
           = map (\<lambda>p. (subtypeOf p, ancestors p, isOptional p)) st"
  shows "fresh st' = fresh st"
proof -
  have eq: "fresh x \<longleftrightarrow>
      (\<forall>t\<in>set (map (\<lambda>p. (subtypeOf p, ancestors p, isOptional p)) x). t = ([], [], 0))"
    for x unfolding fresh_def by simp
  show ?thesis unfolding eq assms by (rule refl)
qed

lemma fresh_nth:
  "fresh st \<Longrightarrow> q < length st \<Longrightarrow>
     subtypeOf (st ! q) = [] \<and> ancestors (st ! q) = [] \<and> isOptional (st ! q) = 0"
  unfolding fresh_def using nth_mem by fastforce

lemma fresh_latticeOk: "fresh st \<Longrightarrow> latticeOk st"
  unfolding latticeOk_def supersOk_def ancestorsOk_def rolesOk_def using fresh_nth by fastforce


lemma findSupertypes_latticeOk:
  assumes "latticeOk ps"
  shows "latticeOk (findSupertypes ps)"
proof -
  have "supersOk (findSupertypes ps)"
    using assms by (simp add: latticeOk_def findSupertypes_supersOk)
  moreover have "ancestorsOk (findSupertypes ps) = ancestorsOk ps"
    by (rule ancestorsOk_cong) (simp_all add: findSupertypes_map)
  moreover have "rolesOk (findSupertypes ps) = rolesOk ps"
    by (rule rolesOk_cong) (simp_all add: findSupertypes_map)
  ultimately show ?thesis using assms by (simp add: latticeOk_def)
qed

lemma modify_ancestorsOk:
  assumes "ancestorsOk st"
    and "\<forall>a\<in>set new. a < length st \<and> singleNonterminals (st ! a)"
  shows "ancestorsOk (modify p (\<lambda>x. x\<lparr>ancestors := new\<rparr>) st)"
proof -
  have sn: "singleNonterminals (modify p (\<lambda>x. x\<lparr>ancestors := new\<rparr>) st ! s)
            = singleNonterminals (st ! s)" for s
    by (rule singleNonterminals_defs) (simp add: modify_nth)
  show ?thesis
    unfolding ancestorsOk_def sn
  proof (intro allI impI ballI)
    fix q s
    assume q: "q < length (modify p (\<lambda>x. x\<lparr>ancestors := new\<rparr>) st)"
      and s: "s \<in> set (ancestors (modify p (\<lambda>x. x\<lparr>ancestors := new\<rparr>) st ! q))"
    show "s < length (modify p (\<lambda>x. x\<lparr>ancestors := new\<rparr>) st) \<and> singleNonterminals (st ! s)"
    proof (cases "q = p \<and> p < length st")
      case True
      with s have "s \<in> set new" by (simp add: modify_nth)
      with assms(2) show ?thesis by simp
    next
      case False
      with s have "s \<in> set (ancestors (st ! q))" by (simp add: modify_nth)
      with ancestorsOk_D [OF assms(1), of q s] q show ?thesis by simp
    qed
  qed
qed

lemma findAllAncestors_latticeOk:
  assumes "latticeOk ps"
  shows "latticeOk (findAllAncestors ps)"
proof -
  let ?step = "\<lambda>prd st. modify prd
      (\<lambda>p. p\<lparr>ancestors := findAncestors st (subtypeOf p) (ancestors p)\<rparr>) st"
  let ?P = "\<lambda>st. supersOk st \<and> ancestorsOk st \<and> length st = length ps"
  have "?P (fold ?step [0..<length ps] ps)"
  proof (rule fold_invariant [where P = ?P])
    show "?P ps" using assms by (simp add: latticeOk_def)
  next
    fix prd st assume prd: "prd \<in> set [0..<length ps]" and P: "?P st"
    then have lt: "prd < length st" by simp
    have new: "\<forall>a\<in>set (findAncestors st (subtypeOf (st ! prd)) (ancestors (st ! prd))).
                 a < length st \<and> singleNonterminals (st ! a)"
    proof (rule findAncestors_members)
      show "supersOk st" using P by simp
      show "\<forall>c\<in>set (subtypeOf (st ! prd)). c < length st \<and> singleNonterminals (st ! c)"
        using supersOk_D [of st prd] P lt by blast
      show "\<forall>a\<in>set (ancestors (st ! prd)). a < length st \<and> singleNonterminals (st ! a)"
        using ancestorsOk_D [of st prd] P lt by blast
    qed
    have eq: "?step prd st = modify prd
        (\<lambda>x. x\<lparr>ancestors := findAncestors st (subtypeOf (st ! prd)) (ancestors (st ! prd))\<rparr>) st"
      by (simp add: modify_def)
    have "ancestorsOk (?step prd st)"
      unfolding eq using P new by (intro modify_ancestorsOk) simp_all
    moreover have "supersOk (?step prd st) = supersOk st"
      by (rule supersOk_cong) simp_all
    ultimately show "?P (?step prd st)" using P by simp
  qed
  then have "supersOk (findAllAncestors ps)" "ancestorsOk (findAllAncestors ps)"
    by (simp_all add: findAllAncestors_def)
  moreover have "rolesOk (findAllAncestors ps) = rolesOk ps"
    by (rule rolesOk_cong) (simp_all add: findAllAncestors_map)
  ultimately show ?thesis using assms by (simp add: latticeOk_def)
qed

lemma findBeInstance_latticeOk: "latticeOk (findBeInstance ps) = latticeOk ps"
  by (rule latticeOk_cong) (simp add: findBeInstance_map)

lemma findOptProdsOne_rolesOk:
  assumes "rolesOk st" "findOptProdsOne parent st = Inr st'"
  shows "rolesOk st'"
proof -
  have len: "length st' = length st" using assms(2) by (rule findOptProdsOne_length)
  have d: "map defs st' = map defs st"
    by (rule findOptProdsOne_map [OF _ _ _ assms(2)]) simp_all
  show ?thesis
    unfolding rolesOk_def len
  proof (intro allI impI)
    fix q assume q: "q < length st"
      and r: "isOptional (st' ! q) = 1 \<or> isOptional (st' ! q) = 2"
    have "defs (st' ! q) = defs (st ! q)" using d q len by (metis nth_map)
    then have o: "isOptParent (st' ! q) = isOptParent (st ! q)" by (rule isOptParent_defs)
    have "(isOptional (st ! q) = 1 \<or> isOptional (st ! q) = 2) \<or> isOptParent (st ! q)"
      using assms(2) r
      by (auto simp: findOptProdsOne_def Let_def findTransferName_def modify_nth
          split: if_splits option.splits)
    then show "isOptParent (st' ! q)"
      unfolding o using assms(1) q by (auto simp: rolesOk_def)
  qed
qed

lemma findOptProds_latticeOk:
  assumes "latticeOk ps" "findOptProds ps = Inr ps'"
  shows "latticeOk ps'"
proof -
  have "supersOk ps' = supersOk ps"
    by (rule supersOk_cong) (simp_all add: findOptProds_map [OF _ _ _ assms(2)])
  moreover have "ancestorsOk ps' = ancestorsOk ps"
    by (rule ancestorsOk_cong) (simp_all add: findOptProds_map [OF _ _ _ assms(2)])
  moreover have "rolesOk ps'"
  proof (rule foldE_invariant [where P = rolesOk and f = findOptProdsOne
        and xs = "[0..<length ps]" and s = ps])
    show "rolesOk ps" using assms(1) by (simp add: latticeOk_def)
    show "foldE findOptProdsOne [0..<length ps] ps = Inr ps'"
      using assms(2) by (simp add: findOptProds_def)
  next
    fix x s s' assume "rolesOk s" "findOptProdsOne x s = Inr s'"
    then show "rolesOk s'" by (rule findOptProdsOne_rolesOk)
  qed
  ultimately show ?thesis using assms(1) by (simp add: latticeOk_def)
qed


subsection \<open>The stages of a run\<close>

lemma runPasses_Cons_Inr:
  assumes "runPasses fuel file (p # rest) g = Some (Inr g')"
  obtains g1 where "runPass fuel file p g = Some (Inr g1)"
    and "runPasses fuel file rest g1 = Some (Inr g')"
  using assms by (auto split: option.splits sum.splits)

lemma onProductions_Inr:
  "onProductions f g = Inr g' \<Longrightarrow> f (productions g) = Inr (productions g')"
  by (auto simp: onProductions_def split: sum.splits)

lemma reviseSpelling_productions:
  "reviseSpelling g = Inr g' \<Longrightarrow> productions g' = productions g"
  by (auto simp: reviseSpelling_def split: sum.splits)

text \<open>
  C10. In the analysed model, the state after the passes of main up to findMyExps when
  none of them ends the program, no member of the subtypeOf list or of the ancestors
  list of a production has the role of an optional parent (isOptional 1 or 2); and in
  the state on which findAllAncestors runs every isOptional is still 0, so its test of
  isOptional never fires.
\<close>

theorem supertypes_are_no_optional_parents:
  assumes run: "analyse fuel file = Some (Inr g)"
    and p: "p < length (productions g)"
    and s: "s \<in> set (subtypeOf (productions g ! p)) \<union> set (ancestors (productions g ! p))"
  shows "isOptional (productions g ! s) \<noteq> 1 \<and> isOptional (productions g ! s) \<noteq> 2 \<and>
         (\<exists>g'. runPasses fuel file [Parse, RefineSpelling, ReadOwnAtts, Bind, ClassifySupertypes]
                  emptyGlobals = Some (Inr g') \<and>
               (\<forall>q<length (productions g'). isOptional (productions g' ! q) = 0))"
proof -
  from run have "runPasses fuel file [Parse, RefineSpelling, ReadOwnAtts, Bind,
      ClassifySupertypes, Ancestors, BeInstance, ClassifyOptionals, FullAtts, OwnExps]
      emptyGlobals = Some (Inr g)"
    by (simp add: analyse_def mainPasses_def)
  then obtain g1 g2 g3 g4 g5 g6 g7 g8 g9
    where 1: "runPass fuel file Parse emptyGlobals = Some (Inr g1)"
      and 2: "runPass fuel file RefineSpelling g1 = Some (Inr g2)"
      and 3: "runPass fuel file ReadOwnAtts g2 = Some (Inr g3)"
      and 4: "runPass fuel file Bind g3 = Some (Inr g4)"
      and 5: "runPass fuel file ClassifySupertypes g4 = Some (Inr g5)"
      and 6: "runPass fuel file Ancestors g5 = Some (Inr g6)"
      and 7: "runPass fuel file BeInstance g6 = Some (Inr g7)"
      and 8: "runPass fuel file ClassifyOptionals g7 = Some (Inr g8)"
      and 9: "runPass fuel file FullAtts g8 = Some (Inr g9)"
      and 10: "runPass fuel file OwnExps g9 = Some (Inr g)"
    by (elim runPasses_Cons_Inr) simp
  have f1: "fresh (productions g1)" using 1 by (auto simp: fresh_yyparse)
  have f2: "fresh (productions g2)" using 2 f1 by (simp add: reviseSpelling_productions)
  have f3: "fresh (productions g3)"
  proof -
    from 3 have "findMyAtts (fileAttributes file) (productions g2) = Inr (productions g3)"
      by (simp add: onProductions_Inr)
    then have "map (\<lambda>p. (subtypeOf p, ancestors p, isOptional p)) (productions g3)
        = map (\<lambda>p. (subtypeOf p, ancestors p, isOptional p)) (productions g2)"
      by (rule findMyAtts_map [rotated 2]) simp_all
    then have "fresh (productions g3) = fresh (productions g2)" by (rule fresh_cong)
    with f2 show ?thesis by simp
  qed
  have p4: "productions g4 = findProdValueAll (productions g3)" using 4 by auto
  have f4: "fresh (productions g4)"
    unfolding p4 using f3 fresh_cong [of "findProdValueAll (productions g3)" "productions g3"]
    by (simp add: findProdValueAll_map)
  have p5: "productions g5 = findSupertypes (productions g4)" using 5 by auto
  have l5: "latticeOk (productions g5)"
    unfolding p5 using f4 by (intro findSupertypes_latticeOk fresh_latticeOk)
  have o5: "\<forall>q<length (productions g5). isOptional (productions g5 ! q) = 0"
  proof (intro allI impI)
    fix q assume q: "q < length (productions g5)"
    have m: "map isOptional (productions g5) = map isOptional (productions g4)"
      unfolding p5 by (simp add: findSupertypes_map)
    then have len: "length (productions g5) = length (productions g4)"
      by (rule map_eq_imp_length_eq)
    have "isOptional (productions g5 ! q) = isOptional (productions g4 ! q)"
      using m q len by (metis nth_map)
    then show "isOptional (productions g5 ! q) = 0"
      using fresh_nth [OF f4, of q] q len by simp
  qed
  have p6: "productions g6 = findAllAncestors (productions g5)" using 6 by auto
  have l6: "latticeOk (productions g6)" unfolding p6 using l5 by (rule findAllAncestors_latticeOk)
  have p7: "productions g7 = findBeInstance (productions g6)" using 7 by auto
  have l7: "latticeOk (productions g7)" unfolding p7 using l6 by (simp add: findBeInstance_latticeOk)
  have l8: "latticeOk (productions g8)"
  proof -
    from 8 have "findOptProds (productions g7) = Inr (productions g8)"
      by (simp add: onProductions_Inr)
    with l7 show ?thesis by (rule findOptProds_latticeOk)
  qed
  have l9: "latticeOk (productions g9)"
  proof -
    from 9 have "findAttNamesAll fuel (productions g8) = Some (Inr (productions g9))"
      by (auto simp: onProductions_def split: option.splits sum.splits)
    then have "map (\<lambda>p. (subtypeOf p, ancestors p, isOptional p, defs p)) (productions g9)
        = map (\<lambda>p. (subtypeOf p, ancestors p, isOptional p, defs p)) (productions g8)"
      by (rule findAttNamesAll_map [rotated 1]) simp_all
    then have "latticeOk (productions g9) = latticeOk (productions g8)" by (rule latticeOk_cong)
    with l8 show ?thesis by simp
  qed
  have l10: "latticeOk (productions g)"
  proof -
    from 10 have "findMyExps (productions g9) = Inr (productions g)"
      by (simp add: onProductions_Inr)
    then have "map (\<lambda>p. (subtypeOf p, ancestors p, isOptional p, defs p)) (productions g)
        = map (\<lambda>p. (subtypeOf p, ancestors p, isOptional p, defs p)) (productions g9)"
      by (rule findMyExps_map [rotated 1]) simp_all
    then have "latticeOk (productions g) = latticeOk (productions g9)" by (rule latticeOk_cong)
    with l9 show ?thesis by simp
  qed
  have "runPasses fuel file [Parse, RefineSpelling, ReadOwnAtts, Bind, ClassifySupertypes]
          emptyGlobals = Some (Inr g5)"
    using 1 2 3 4 5 by simp
  with o5 latticeOk_member [OF l10 p s] show ?thesis by blast
qed




lemmas eval_main_defs = analyse_def main_def mainPasses_def emptyGlobals_def onProductions_def
  reviseSpelling_def reviseOne_def findToken_def findMyAtts_def readAttLine_def findProd_def
  findAttNamesAll_def findAttNamesTop_def findMyExps_def findMyExpsOne_def nextAtt_def

theorem supertypes_are_no_optional_parents_witness:
  "(1::nat) < length (productions (projr (the (analyse 5 kindFile)))) \<and>
   0 \<in> set (subtypeOf (productions (projr (the (analyse 5 kindFile))) ! 1)) \<and>
   isOptional (productions (projr (the (analyse 5 kindFile))) ! 0) = 3"
proof -
  have "\<exists>g. analyse 5 kindFile = Some (Inr g) \<and> length (productions g) = 4 \<and>
          subtypeOf (productions g ! 1) = [0] \<and> isOptional (productions g ! 0) = 3"
    by (simp add: kindFile_def eval_main_defs eval_defs eval_opt_defs)
  then obtain g where run: "analyse 5 kindFile = Some (Inr g)"
    and len: "length (productions g) = 4"
    and s1: "subtypeOf (productions g ! 1) = [0]"
    and o0: "isOptional (productions g ! 0) = 3" by (elim exE conjE)
  have p: "1 < length (productions g)" using len by simp
  have s: "0 \<in> set (subtypeOf (productions g ! 1)) \<union> set (ancestors (productions g ! 1))"
    using s1 by simp
  from supertypes_are_no_optional_parents [OF run p s]
  have "isOptional (productions g ! 0) \<noteq> 1 \<and> isOptional (productions g ! 0) \<noteq> 2" by blast
  with run p s1 o0 show ?thesis by simp
qed

subsection \<open>The optional parents of a grammar (C6)\<close>

lemma foldE_upt_cases:
  assumes "I 0 s"
    and "\<And>k st st'. k < n \<Longrightarrow> I k st \<Longrightarrow> f k st = Inr st' \<Longrightarrow> I (Suc k) st'"
  shows "(\<exists>s'. foldE f [0..<n] s = Inr s' \<and> I n s') \<or>
         (\<exists>k<n. \<exists>st e. I k st \<and> f k st = Inl e \<and> foldE f [0..<n] s = Inl e)"
  using assms(2)
proof (induction n)
  case 0
  then show ?case using assms(1) by simp
next
  case (Suc n)
  have "(\<exists>s'. foldE f [0..<n] s = Inr s' \<and> I n s') \<or>
         (\<exists>k<n. \<exists>st e. I k st \<and> f k st = Inl e \<and> foldE f [0..<n] s = Inl e)"
  proof (rule Suc.IH)
    fix k st st' assume "k < n" "I k st" "f k st = Inr st'"
    then show "I (Suc k) st'" using Suc.prems [of k st st'] by simp
  qed
  then show ?case
  proof
    assume "\<exists>s'. foldE f [0..<n] s = Inr s' \<and> I n s'"
    then obtain st where st: "foldE f [0..<n] s = Inr st" "I n st" by blast
    show ?thesis
    proof (cases "f n st")
      case (Inl e)
      then have "foldE f [0..<Suc n] s = Inl e" using st(1) by (simp add: foldE_snoc)
      with st(2) Inl have "\<exists>k<Suc n. \<exists>st e. I k st \<and> f k st = Inl e \<and>
          foldE f [0..<Suc n] s = Inl e" by blast
      then show ?thesis by (rule disjI2)
    next
      case (Inr st')
      then have "foldE f [0..<Suc n] s = Inr st'" using st(1) by (simp add: foldE_snoc)
      moreover have "I (Suc n) st'" using Suc.prems [of n st st'] st(2) Inr by simp
      ultimately show ?thesis by blast
    qed
  next
    assume "\<exists>k<n. \<exists>st e. I k st \<and> f k st = Inl e \<and> foldE f [0..<n] s = Inl e"
    then obtain k st e where k: "k < n" "I k st" "f k st = Inl e"
      "foldE f [0..<n] s = Inl e" by blast
    from k(4) have "foldE f [0..<Suc n] s = Inl e" by (simp add: foldE_snoc)
    moreover from k(1) have "k < Suc n" by simp
    ultimately have "\<exists>k<Suc n. \<exists>st e. I k st \<and> f k st = Inl e \<and>
          foldE f [0..<Suc n] s = Inl e" using k(2,3) by blast
    then show ?thesis by (rule disjI2)
  qed
qed

lemma findOptProdsOne_transferName:
  "findOptProdsOne parent st = Inr st' \<Longrightarrow> q \<noteq> parent \<Longrightarrow>
   transferName (st' ! q) = transferName (st ! q)"
  by (auto simp: findOptProdsOne_def Let_def findTransferName_def modify_nth
      split: if_splits option.splits)

lemma findOptProdsOne_role1:
  assumes "findOptProdsOne parent st = Inr st'" and "isOptParent (st ! parent)"
    and "parent < length st" and "childOf (st ! parent) < length st"
    and "childOf (st ! parent) \<noteq> parent"
  shows "isOptional (st' ! parent) = 1 \<longleftrightarrow>
         isInstance (st ! childOf (st ! parent)) \<or> beInstance (st ! childOf (st ! parent)) \<noteq> None"
  using assms
  by (auto simp: findOptProdsOne_def Let_def findTransferName_def modify_nth
      split: if_splits option.splits)

lemma findOptProdsOne_Inl:
  assumes "findOptProdsOne parent st = Inl e"
  shows "isOptParent (st ! parent) \<and> e = NoTransferName (lhs (st ! parent)) \<and>
         \<not> isInstance (st ! childOf (st ! parent)) \<and>
         beInstance (st ! childOf (st ! parent)) \<noteq> None \<and>
         (\<forall>prd<length st. \<not> (childOf (st ! parent) \<in> set (ancestors (st ! prd)) \<and>
                               isInstance (st ! prd)))"
  using assms
  by (auto simp: findOptProdsOne_def Let_def findTransferName_def modify_nth find_None_iff
      split: if_splits option.splits)


text \<open>
  What the loop of findOptProds has done, beyond the roles, before it looks at the
  production at position \<open>k\<close>: the fields the role depends on are as they were, the
  role of a parent already seen is 1 exactly when its child is an instance or has an
  instance below it, a child already seen points at the last parent seen, and a
  production that is neither has kept its optProd and its transferName.
\<close>

definition optPeers :: "production list \<Rightarrow> nat \<Rightarrow> production list \<Rightarrow> bool" where
  "optPeers ps k st \<longleftrightarrow>
     (\<forall>q<length ps. isInstance (st ! q) = isInstance (ps ! q) \<and>
        beInstance (st ! q) = beInstance (ps ! q) \<and>
        ancestors (st ! q) = ancestors (ps ! q) \<and> lhs (st ! q) = lhs (ps ! q)) \<and>
     (\<forall>q<length ps. isOptParent (ps ! q) \<and> q < k \<longrightarrow>
        (isOptional (st ! q) = 1 \<longleftrightarrow>
           isInstance (ps ! childOf (ps ! q)) \<or> beInstance (ps ! childOf (ps ! q)) \<noteq> None)) \<and>
     (\<forall>q<length ps. \<not> isOptParent (ps ! q) \<longrightarrow>
        (if \<exists>j<k. isOptParent (ps ! j) \<and> childOf (ps ! j) = q
         then \<exists>j<k. optProd (st ! q) = Some j \<and> isOptParent (ps ! j) \<and> childOf (ps ! j) = q \<and>
                (\<forall>i<k. isOptParent (ps ! i) \<and> childOf (ps ! i) = q \<longrightarrow> i \<le> j)
         else optProd (st ! q) = optProd (ps ! q) \<and>
              transferName (st ! q) = transferName (ps ! q)))"

lemma optPeers_step:
  assumes wf: "\<forall>q<length ps. isOptParent (ps ! q) \<longrightarrow>
                 childOf (ps ! q) < length ps \<and> \<not> isOptParent (ps ! childOf (ps ! q))"
    and k: "k < length ps" and inv: "optInv ps k st" and peers: "optPeers ps k st"
    and step: "findOptProdsOne k st = Inr st'"
  shows "optPeers ps (Suc k) st'"
proof -
  from inv have len: "length st = length ps"
    and dfs: "\<And>q. q < length ps \<Longrightarrow> defs (st ! q) = defs (ps ! q)"
    by (simp_all add: optInv_def)
  from peers have frm: "\<And>q. q < length ps \<Longrightarrow> isInstance (st ! q) = isInstance (ps ! q) \<and>
        beInstance (st ! q) = beInstance (ps ! q) \<and>
        ancestors (st ! q) = ancestors (ps ! q) \<and> lhs (st ! q) = lhs (ps ! q)"
    and one: "\<And>q. q < length ps \<Longrightarrow> isOptParent (ps ! q) \<Longrightarrow> q < k \<Longrightarrow>
        (isOptional (st ! q) = 1 \<longleftrightarrow>
           isInstance (ps ! childOf (ps ! q)) \<or> beInstance (ps ! childOf (ps ! q)) \<noteq> None)"
    and oth: "\<And>q. q < length ps \<Longrightarrow> \<not> isOptParent (ps ! q) \<Longrightarrow>
        (if \<exists>j<k. isOptParent (ps ! j) \<and> childOf (ps ! j) = q
         then \<exists>j<k. optProd (st ! q) = Some j \<and> isOptParent (ps ! j) \<and> childOf (ps ! j) = q \<and>
                (\<forall>i<k. isOptParent (ps ! i) \<and> childOf (ps ! i) = q \<longrightarrow> i \<le> j)
         else optProd (st ! q) = optProd (ps ! q) \<and>
              transferName (st ! q) = transferName (ps ! q))"
    by (simp_all add: optPeers_def)
  have shape: "isOptParent (st ! k) = isOptParent (ps ! k)"
    using dfs [OF k] by (rule isOptParent_defs)
  have child: "childOf (st ! k) = childOf (ps ! k)"
    using dfs [OF k] by (rule childOf_defs)
  have frm': "isInstance (st' ! q) = isInstance (ps ! q) \<and>
        beInstance (st' ! q) = beInstance (ps ! q) \<and>
        ancestors (st' ! q) = ancestors (ps ! q) \<and> lhs (st' ! q) = lhs (ps ! q)"
    if "q < length ps" for q
    using findOptProdsOne_frame [OF step, of q] that len frm [OF that] by simp
  show ?thesis
  proof (cases "isOptParent (ps ! k)")
    case False
    then have st': "st' = st" using step shape by (simp add: findOptProdsOne_not)
    have ex: "(\<exists>j<Suc k. isOptParent (ps ! j) \<and> childOf (ps ! j) = q)
              \<longleftrightarrow> (\<exists>j<k. isOptParent (ps ! j) \<and> childOf (ps ! j) = q)" for q
      using False less_Suc_eq by auto
    have one': "isOptional (st ! q) = 1 \<longleftrightarrow>
           isInstance (ps ! childOf (ps ! q)) \<or> beInstance (ps ! childOf (ps ! q)) \<noteq> None"
      if q: "q < length ps" "isOptParent (ps ! q)" "q < Suc k" for q
    proof -
      have "q \<noteq> k" using q(2) False by auto
      then have "q < k" using q(3) by simp
      then show ?thesis using one [OF q(1,2)] by simp
    qed
    have oth': "if \<exists>j<Suc k. isOptParent (ps ! j) \<and> childOf (ps ! j) = q
         then \<exists>j<Suc k. optProd (st ! q) = Some j \<and> isOptParent (ps ! j) \<and>
                childOf (ps ! j) = q \<and>
                (\<forall>i<Suc k. isOptParent (ps ! i) \<and> childOf (ps ! i) = q \<longrightarrow> i \<le> j)
         else optProd (st ! q) = optProd (ps ! q) \<and>
              transferName (st ! q) = transferName (ps ! q)"
      if q: "q < length ps" "\<not> isOptParent (ps ! q)" for q
    proof (cases "\<exists>j<k. isOptParent (ps ! j) \<and> childOf (ps ! j) = q")
      case True
      with oth [OF q] obtain j where j: "j < k" "optProd (st ! q) = Some j"
        "isOptParent (ps ! j)" "childOf (ps ! j) = q"
        "\<forall>i<k. isOptParent (ps ! i) \<and> childOf (ps ! i) = q \<longrightarrow> i \<le> j" by auto
      have "\<forall>i<Suc k. isOptParent (ps ! i) \<and> childOf (ps ! i) = q \<longrightarrow> i \<le> j"
        using j(5) False less_Suc_eq by auto
      moreover have "j < Suc k" using j(1) by simp
      ultimately have "\<exists>j<Suc k. optProd (st ! q) = Some j \<and> isOptParent (ps ! j) \<and>
                childOf (ps ! j) = q \<and>
                (\<forall>i<Suc k. isOptParent (ps ! i) \<and> childOf (ps ! i) = q \<longrightarrow> i \<le> j)"
        using j(2,3,4) by blast
      then show ?thesis using True ex [of q] by simp
    next
      case no: False
      from oth [OF q] have e: "optProd (st ! q) = optProd (ps ! q) \<and>
              transferName (st ! q) = transferName (ps ! q)"
        unfolding if_not_P [OF no] .
      from no have no': "\<not> (\<exists>j<Suc k. isOptParent (ps ! j) \<and> childOf (ps ! j) = q)"
        unfolding ex [of q] .
      show ?thesis unfolding if_not_P [OF no'] by (rule e)
    qed
    show ?thesis
      unfolding optPeers_def st' using frm one' oth' by simp
  next
    case True
    let ?c = "childOf (ps ! k)"
    from wf k True have c: "?c < length ps" "\<not> isOptParent (ps ! ?c)" by auto
    then have ck: "?c \<noteq> k" using True by auto
    note roles = findOptProdsOne_roles [OF step, unfolded shape child, OF True]
    have r: "optProd (st' ! ?c) = Some k"
      "\<And>q. q \<noteq> k \<Longrightarrow> q \<noteq> ?c \<Longrightarrow> isOptional (st' ! q) = isOptional (st ! q) \<and>
          optProd (st' ! q) = optProd (st ! q)"
      using roles k c(1) ck len by auto
    have tn: "transferName (st' ! q) = transferName (st ! q)" if "q \<noteq> k" for q
      using step that by (rule findOptProdsOne_transferName)
    have r1: "isOptional (st' ! k) = 1 \<longleftrightarrow>
           isInstance (ps ! ?c) \<or> beInstance (ps ! ?c) \<noteq> None"
      using findOptProdsOne_role1 [OF step, unfolded shape child, OF True] k c(1) ck len
        frm [OF c(1)] by simp
    have one': "isOptional (st' ! q) = 1 \<longleftrightarrow>
           isInstance (ps ! childOf (ps ! q)) \<or> beInstance (ps ! childOf (ps ! q)) \<noteq> None"
      if q: "q < length ps" "isOptParent (ps ! q)" "q < Suc k" for q
    proof (cases "q = k")
      case True
      then show ?thesis using r1 by simp
    next
      case False
      moreover have "q \<noteq> ?c" using q(2) c(2) by auto
      ultimately have "isOptional (st' ! q) = isOptional (st ! q)" using r(2) by simp
      moreover have "q < k" using False q(3) by simp
      ultimately show ?thesis using one [OF q(1,2)] by simp
    qed
    have oth': "if \<exists>j<Suc k. isOptParent (ps ! j) \<and> childOf (ps ! j) = q
         then \<exists>j<Suc k. optProd (st' ! q) = Some j \<and> isOptParent (ps ! j) \<and>
                childOf (ps ! j) = q \<and>
                (\<forall>i<Suc k. isOptParent (ps ! i) \<and> childOf (ps ! i) = q \<longrightarrow> i \<le> j)
         else optProd (st' ! q) = optProd (ps ! q) \<and>
              transferName (st' ! q) = transferName (ps ! q)"
      if q: "q < length ps" "\<not> isOptParent (ps ! q)" for q
    proof (cases "q = ?c")
      case qc: True
      have "\<forall>i<Suc k. isOptParent (ps ! i) \<and> childOf (ps ! i) = q \<longrightarrow> i \<le> k" by simp
      moreover have "k < Suc k" by simp
      ultimately have e: "\<exists>j<Suc k. optProd (st' ! q) = Some j \<and> isOptParent (ps ! j) \<and>
                childOf (ps ! j) = q \<and>
                (\<forall>i<Suc k. isOptParent (ps ! i) \<and> childOf (ps ! i) = q \<longrightarrow> i \<le> j)"
        using r(1) True qc by blast
      then have "\<exists>j<Suc k. isOptParent (ps ! j) \<and> childOf (ps ! j) = q" by blast
      with e show ?thesis by simp
    next
      case qc: False
      have qk: "q \<noteq> k" using q(2) True by auto
      have same: "optProd (st' ! q) = optProd (st ! q)"
        "transferName (st' ! q) = transferName (st ! q)"
        using r(2) [OF qk qc] tn [OF qk] by simp_all
      have ex: "(\<exists>j<Suc k. isOptParent (ps ! j) \<and> childOf (ps ! j) = q)
            \<longleftrightarrow> (\<exists>j<k. isOptParent (ps ! j) \<and> childOf (ps ! j) = q)"
        using qc less_Suc_eq by auto
      show ?thesis
      proof (cases "\<exists>j<k. isOptParent (ps ! j) \<and> childOf (ps ! j) = q")
        case ch: True
        with oth [OF q] obtain j where j: "j < k" "optProd (st ! q) = Some j"
          "isOptParent (ps ! j)" "childOf (ps ! j) = q"
          "\<forall>i<k. isOptParent (ps ! i) \<and> childOf (ps ! i) = q \<longrightarrow> i \<le> j" by auto
        have "\<forall>i<Suc k. isOptParent (ps ! i) \<and> childOf (ps ! i) = q \<longrightarrow> i \<le> j"
          using j(5) qc less_Suc_eq by auto
        moreover have "j < Suc k" using j(1) by simp
        ultimately have "\<exists>j<Suc k. optProd (st' ! q) = Some j \<and> isOptParent (ps ! j) \<and>
                childOf (ps ! j) = q \<and>
                (\<forall>i<Suc k. isOptParent (ps ! i) \<and> childOf (ps ! i) = q \<longrightarrow> i \<le> j)"
          using j(2,3,4) same(1) by auto
        then show ?thesis using ch ex by simp
      next
        case no: False
        from oth [OF q] have e: "optProd (st ! q) = optProd (ps ! q) \<and>
              transferName (st ! q) = transferName (ps ! q)"
          unfolding if_not_P [OF no] .
        from no have no': "\<not> (\<exists>j<Suc k. isOptParent (ps ! j) \<and> childOf (ps ! j) = q)"
          unfolding ex .
        show ?thesis unfolding if_not_P [OF no'] using e same by simp
      qed
    qed
    show ?thesis
      unfolding optPeers_def using frm' one' oth' by simp
  qed
qed


lemma isOptParent_child:
  "isOptParent p \<and> childOf p = c \<longleftrightarrow>
     (\<exists>e1 e2. defs p = [[e1], [e2]] \<and> prodValue e1 = Some c \<and> theType e2 = ONECHAR \<and>
        itemName e2 = ''$'')"
proof
  assume a: "isOptParent p \<and> childOf p = c"
  then obtain e1 e2 c' where sh: "defs p = [[e1], [e2]]" "prodValue e1 = Some c'"
    "theType e2 = ONECHAR" "itemName e2 = ''$''"
    unfolding isOptParent_shape by blast
  then have "childOf p = c'" by (simp add: childOf_def)
  with a sh show "\<exists>e1 e2. defs p = [[e1], [e2]] \<and> prodValue e1 = Some c \<and>
      theType e2 = ONECHAR \<and> itemName e2 = ''$''" by simp
next
  assume "\<exists>e1 e2. defs p = [[e1], [e2]] \<and> prodValue e1 = Some c \<and> theType e2 = ONECHAR \<and>
        itemName e2 = ''$''"
  then obtain e1 e2 where sh: "defs p = [[e1], [e2]]" "prodValue e1 = Some c"
    "theType e2 = ONECHAR" "itemName e2 = ''$''" by blast
  then have "isOptParent p" unfolding isOptParent_shape by blast
  moreover from sh have "childOf p = c" by (simp add: childOf_def)
  ultimately show "isOptParent p \<and> childOf p = c" by simp
qed

lemma findOptProds_cases:
  assumes init: "\<forall>q<length ps. isOptional (ps ! q) = 0"
    and wf: "\<forall>q<length ps. isOptParent (ps ! q) \<longrightarrow>
               childOf (ps ! q) < length ps \<and> \<not> isOptParent (ps ! childOf (ps ! q))"
  shows "(\<exists>ps'. findOptProds ps = Inr ps' \<and>
            optInv ps (length ps) ps' \<and> optPeers ps (length ps) ps') \<or>
         (\<exists>k<length ps. \<exists>st e. (optInv ps k st \<and> optPeers ps k st) \<and>
            findOptProdsOne k st = Inl e \<and> findOptProds ps = Inl e)"
  unfolding findOptProds_def
proof (rule foldE_upt_cases [where I = "\<lambda>k st. optInv ps k st \<and> optPeers ps k st"])
  have "optInv ps 0 ps" using init by (simp add: optInv_def)
  moreover have "optPeers ps 0 ps" by (simp add: optPeers_def)
  ultimately show "optInv ps 0 ps \<and> optPeers ps 0 ps" by simp
next
  fix k st st'
  assume k: "k < length ps" and i: "optInv ps k st \<and> optPeers ps k st"
    and step: "findOptProdsOne k st = Inr st'"
  from i have a: "optInv ps k st" and b: "optPeers ps k st" by simp_all
  have "optInv ps (Suc k) st'" using wf k a step by (rule optInv_step)
  moreover have "optPeers ps (Suc k) st'" using wf k a b step by (rule optPeers_step)
  ultimately show "optInv ps (Suc k) st' \<and> optPeers ps (Suc k) st'" by simp
qed

lemma findOptProds_final:
  assumes init: "\<forall>q<length ps. isOptional (ps ! q) = 0"
    and wf: "\<forall>q<length ps. isOptParent (ps ! q) \<longrightarrow>
               childOf (ps ! q) < length ps \<and> \<not> isOptParent (ps ! childOf (ps ! q))"
    and run: "findOptProds ps = Inr ps'"
  shows "optInv ps (length ps) ps'" "optPeers ps (length ps) ps'"
  using findOptProds_cases [OF init wf] run by auto

lemma findOptProds_Inl:
  assumes init: "\<forall>q<length ps. isOptional (ps ! q) = 0"
    and wf: "\<forall>q<length ps. isOptParent (ps ! q) \<longrightarrow>
               childOf (ps ! q) < length ps \<and> \<not> isOptParent (ps ! childOf (ps ! q))"
    and run: "findOptProds ps = Inl e"
  shows "\<exists>p<length ps. isOptParent (ps ! p) \<and> e = NoTransferName (lhs (ps ! p)) \<and>
           \<not> isInstance (ps ! childOf (ps ! p)) \<and>
           beInstance (ps ! childOf (ps ! p)) \<noteq> None \<and>
           (\<forall>prd<length ps. \<not> (childOf (ps ! p) \<in> set (ancestors (ps ! prd)) \<and>
                                 isInstance (ps ! prd)))"
proof -
  from findOptProds_cases [OF init wf] run
  obtain k st where k: "k < length ps" and inv: "optInv ps k st" and peers: "optPeers ps k st"
    and step: "findOptProdsOne k st = Inl e" by auto
  from inv have len: "length st = length ps"
    and dfs: "\<And>q. q < length ps \<Longrightarrow> defs (st ! q) = defs (ps ! q)"
    by (simp_all add: optInv_def)
  from peers have frm: "\<And>q. q < length ps \<Longrightarrow> isInstance (st ! q) = isInstance (ps ! q) \<and>
        beInstance (st ! q) = beInstance (ps ! q) \<and>
        ancestors (st ! q) = ancestors (ps ! q) \<and> lhs (st ! q) = lhs (ps ! q)"
    by (simp add: optPeers_def)
  have shape: "isOptParent (st ! k) = isOptParent (ps ! k)"
    using dfs [OF k] by (rule isOptParent_defs)
  have child: "childOf (st ! k) = childOf (ps ! k)"
    using dfs [OF k] by (rule childOf_defs)
  note f = findOptProdsOne_Inl [OF step, unfolded shape child len]
  from f have par: "isOptParent (ps ! k)" by simp
  with wf k have c: "childOf (ps ! k) < length ps" by simp
  have e: "e = NoTransferName (lhs (ps ! k))" using f frm [OF k] by simp
  have i: "\<not> isInstance (ps ! childOf (ps ! k))" using f frm [OF c] by simp
  have b: "beInstance (ps ! childOf (ps ! k)) \<noteq> None" using f frm [OF c] by simp
  have n: "\<not> (childOf (ps ! k) \<in> set (ancestors (ps ! prd)) \<and> isInstance (ps ! prd))"
    if "prd < length ps" for prd
  proof -
    from f that have "\<not> (childOf (ps ! k) \<in> set (ancestors (st ! prd)) \<and> isInstance (st ! prd))"
      by blast
    then show ?thesis using frm [OF that] by simp
  qed
  from k par e i b n show ?thesis by blast
qed

lemma findOptProds_total:
  assumes init: "\<forall>q<length ps. isOptional (ps ! q) = 0"
    and wf: "\<forall>q<length ps. isOptParent (ps ! q) \<longrightarrow>
               childOf (ps ! q) < length ps \<and> \<not> isOptParent (ps ! childOf (ps ! q))"
    and be: "\<forall>q<length ps. beInstance (ps ! q) \<noteq> None \<longrightarrow>
               (\<exists>prd<length ps. q \<in> set (ancestors (ps ! prd)) \<and> isInstance (ps ! prd))"
  shows "\<exists>ps'. findOptProds ps = Inr ps'"
proof (cases "findOptProds ps")
  case (Inl e)
  from findOptProds_Inl [OF init wf Inl] obtain p where p: "p < length ps"
    "isOptParent (ps ! p)" "beInstance (ps ! childOf (ps ! p)) \<noteq> None"
    "\<forall>prd<length ps. \<not> (childOf (ps ! p) \<in> set (ancestors (ps ! prd)) \<and>
                                 isInstance (ps ! prd))" by blast
  from wf p(1,2) have "childOf (ps ! p) < length ps" by simp
  with be p(3) have "\<exists>prd<length ps. childOf (ps ! p) \<in> set (ancestors (ps ! prd)) \<and>
      isInstance (ps ! prd)" by blast
  with p(4) show ?thesis by blast
next
  case (Inr ps')
  then show ?thesis by blast
qed

lemma optional_fields:
  assumes "x\<lparr>isOptional := 0, optProd := None, transferName := None\<rparr>
           = y\<lparr>isOptional := 0, optProd := None, transferName := None\<rparr>"
  shows "x = y\<lparr>isOptional := isOptional x, optProd := optProd x,
               transferName := transferName x\<rparr>"
  using assms by (cases x, cases y) simp

lemma findOptProds_fields:
  assumes run: "findOptProds ps = Inr ps'" and p: "p < length ps"
  shows "ps' ! p = (ps ! p)\<lparr>isOptional := isOptional (ps' ! p), optProd := optProd (ps' ! p),
                            transferName := transferName (ps' ! p)\<rparr>"
proof -
  let ?F = "\<lambda>x. x\<lparr>isOptional := 0, optProd := None, transferName := None\<rparr>"
  have m: "map ?F ps' = map ?F ps"
    by (rule findOptProds_map [OF _ _ _ run]) simp_all
  then have "length (map ?F ps') = length (map ?F ps)" by simp
  then have len: "length ps' = length ps" by simp
  from m have "map ?F ps' ! p = map ?F ps ! p" by simp
  then have "?F (ps' ! p) = ?F (ps ! p)" using p len by simp
  then show ?thesis by (rule optional_fields)
qed


text \<open>
  After findBeInstance, started with no beInstance set, a production with a beInstance
  is on the ancestors list of an instance, so findTransferName finds a name.
\<close>

lemma findBeInstance_transfer:
  assumes "\<forall>q<length ps. beInstance (ps ! q) = None" and "q < length ps"
    and "beInstance (findBeInstance ps ! q) \<noteq> None"
  shows "length (findBeInstance ps) = length ps \<and>
         (\<exists>prd<length ps. q \<in> set (ancestors (findBeInstance ps ! prd)) \<and>
                            isInstance (findBeInstance ps ! prd))"
proof -
  note f = fold_findBeInstanceOne [OF assms(2), of "[0..<length ps]"]
  from f have len: "length (findBeInstance ps) = length ps"
    and fr: "\<And>r. isInstance (findBeInstance ps ! r) = isInstance (ps ! r)"
      "\<And>r. ancestors (findBeInstance ps ! r) = ancestors (ps ! r)"
    by (simp_all add: findBeInstance_def)
  from f have "beInstance (findBeInstance ps ! q) = None \<longleftrightarrow>
      beInstance (ps ! q) = None \<and>
      \<not> (\<exists>sub\<in>set [0..<length ps]. isInstance (ps ! sub) \<and> q \<in> set (ancestors (ps ! sub)))"
    unfolding findBeInstance_def by blast
  moreover have "beInstance (ps ! q) = None" using assms(1,2) by simp
  ultimately have "\<exists>sub\<in>set [0..<length ps]. isInstance (ps ! sub) \<and>
      q \<in> set (ancestors (ps ! sub))" using assms(3) by simp
  then obtain sub where "sub < length ps" "isInstance (ps ! sub)"
    "q \<in> set (ancestors (ps ! sub))" by auto
  then have "\<exists>prd<length ps. q \<in> set (ancestors (findBeInstance ps ! prd)) \<and>
                            isInstance (findBeInstance ps ! prd)"
    unfolding fr by blast
  with len show ?thesis by simp
qed

text \<open>
  C6, as the code has it, for a whole run of findOptProds. The run starts with no
  optional role set, and no optional child has itself the form of an optional parent.

  When the run ends without a diagnostic, it has changed nothing but the fields
  isOptional, optProd and transferName, and for every production \<open>p\<close>: \<open>p\<close> has the
  role 1 or 2 exactly when it has two definitions of one expression each, the first
  bound to a production \<open>c\<close> and the second the single character \<open>$\<close>, in that order;
  then the optProd of \<open>p\<close> is \<open>c\<close>, the role of \<open>p\<close> is 1 exactly when \<open>c\<close> is an instance
  or has a beInstance, the role of \<open>c\<close> is 3, and the optProd of \<open>c\<close> is \<open>p\<close> exactly
  when no later production is an optional parent of \<open>c\<close>; a production that has not
  that form and is the child of none is left as it was.

  The run ends without a diagnostic when every production with a beInstance is on the
  ancestors list of an instance, as findBeInstance leaves them. The only diagnostic is
  the missing transfer name, for an optional parent whose child is no instance, has a
  beInstance, and is on the ancestors list of no instance.
\<close>

theorem findOptProds_classifies:
  assumes init: "\<forall>q<length ps. isOptional (ps ! q) = 0"
    and wf: "\<forall>q<length ps. isOptParent (ps ! q) \<longrightarrow>
               childOf (ps ! q) < length ps \<and> \<not> isOptParent (ps ! childOf (ps ! q))"
  shows "(\<forall>ps'. findOptProds ps = Inr ps' \<longrightarrow> length ps' = length ps \<and>
           (\<forall>p<length ps.
              ps' ! p = (ps ! p)\<lparr>isOptional := isOptional (ps' ! p),
                                  optProd := optProd (ps' ! p),
                                  transferName := transferName (ps' ! p)\<rparr> \<and>
              ((isOptional (ps' ! p) = 1 \<or> isOptional (ps' ! p) = 2) \<longleftrightarrow>
                 (\<exists>e1 e2 c. defs (ps ! p) = [[e1], [e2]] \<and> prodValue e1 = Some c \<and>
                    theType e2 = ONECHAR \<and> itemName e2 = ''$'')) \<and>
              (\<forall>e1 e2 c. defs (ps ! p) = [[e1], [e2]] \<and> prodValue e1 = Some c \<and>
                    theType e2 = ONECHAR \<and> itemName e2 = ''$'' \<longrightarrow>
                 optProd (ps' ! p) = Some c \<and>
                 (isOptional (ps' ! p) = 1 \<longleftrightarrow>
                    isInstance (ps ! c) \<or> beInstance (ps ! c) \<noteq> None) \<and>
                 isOptional (ps' ! c) = 3 \<and>
                 (optProd (ps' ! c) = Some p \<longleftrightarrow>
                    (\<forall>i<length ps. isOptParent (ps ! i) \<and> childOf (ps ! i) = c \<longrightarrow> i \<le> p))) \<and>
              (\<not> isOptParent (ps ! p) \<and>
               \<not> (\<exists>j<length ps. isOptParent (ps ! j) \<and> childOf (ps ! j) = p) \<longrightarrow>
                 ps' ! p = ps ! p))) \<and>
         ((\<forall>q<length ps. beInstance (ps ! q) \<noteq> None \<longrightarrow>
             (\<exists>prd<length ps. q \<in> set (ancestors (ps ! prd)) \<and> isInstance (ps ! prd))) \<longrightarrow>
          (\<exists>ps'. findOptProds ps = Inr ps')) \<and>
         (\<forall>e. findOptProds ps = Inl e \<longrightarrow>
            (\<exists>p<length ps. isOptParent (ps ! p) \<and> e = NoTransferName (lhs (ps ! p)) \<and>
               \<not> isInstance (ps ! childOf (ps ! p)) \<and>
               beInstance (ps ! childOf (ps ! p)) \<noteq> None \<and>
               (\<forall>prd<length ps. \<not> (childOf (ps ! p) \<in> set (ancestors (ps ! prd)) \<and>
                                     isInstance (ps ! prd)))))"
proof (intro conjI allI impI)
  fix ps' assume run: "findOptProds ps = Inr ps'"
  from findOptProds_final(1) [OF init wf run] show "length ps' = length ps"
    by (simp add: optInv_def)
next
  fix ps' p assume run: "findOptProds ps = Inr ps'" and p: "p < length ps"
  show "ps' ! p = (ps ! p)\<lparr>isOptional := isOptional (ps' ! p),
                                  optProd := optProd (ps' ! p),
                                  transferName := transferName (ps' ! p)\<rparr>"
    using run p by (rule findOptProds_fields)
next
  fix ps' p assume run: "findOptProds ps = Inr ps'" and p: "p < length ps"
  from findOptProds_final(1) [OF init wf run]
  have par: "isOptParent (ps ! p) \<Longrightarrow>
        isOptional (ps' ! p) = 1 \<or> isOptional (ps' ! p) = 2"
    and oth: "\<not> isOptParent (ps ! p) \<Longrightarrow>
        isOptional (ps' ! p) = 3 \<or> isOptional (ps' ! p) = 0"
    using p by (auto simp: optInv_def split: if_splits)
  have "(isOptional (ps' ! p) = 1 \<or> isOptional (ps' ! p) = 2) \<longleftrightarrow> isOptParent (ps ! p)"
  proof (cases "isOptParent (ps ! p)")
    case True
    then show ?thesis using par by simp
  next
    case False
    from oth [OF False] have "\<not> (isOptional (ps' ! p) = 1 \<or> isOptional (ps' ! p) = 2)"
      by auto
    then show ?thesis using False by simp
  qed
  then show "(isOptional (ps' ! p) = 1 \<or> isOptional (ps' ! p) = 2) \<longleftrightarrow>
                 (\<exists>e1 e2 c. defs (ps ! p) = [[e1], [e2]] \<and> prodValue e1 = Some c \<and>
                    theType e2 = ONECHAR \<and> itemName e2 = ''$'')"
    unfolding isOptParent_shape .
next
  fix ps' p e1 e2 c
  assume run: "findOptProds ps = Inr ps'" and p: "p < length ps"
    and sh: "defs (ps ! p) = [[e1], [e2]] \<and> prodValue e1 = Some c \<and>
                    theType e2 = ONECHAR \<and> itemName e2 = ''$''"
  from sh have "isOptParent (ps ! p) \<and> childOf (ps ! p) = c"
    unfolding isOptParent_child by blast
  then have par: "isOptParent (ps ! p)" and ch: "childOf (ps ! p) = c" by simp_all
  from wf p par ch have c: "c < length ps" "\<not> isOptParent (ps ! c)" by auto
  note inv = findOptProds_final [OF init wf run]
  from inv(1) p par have r: "optProd (ps' ! p) = Some (childOf (ps ! p))"
    by (simp add: optInv_def)
  have ex: "\<exists>j<length ps. isOptParent (ps ! j) \<and> childOf (ps ! j) = c"
    using p par ch by blast
  from inv(1) c have "if \<exists>j<length ps. isOptParent (ps ! j) \<and> childOf (ps ! j) = c
      then isOptional (ps' ! c) = 3 else isOptional (ps' ! c) = 0"
    by (simp add: optInv_def)
  then have three: "isOptional (ps' ! c) = 3" unfolding if_P [OF ex] .
  from inv(2) p par have one: "isOptional (ps' ! p) = 1 \<longleftrightarrow>
      isInstance (ps ! childOf (ps ! p)) \<or> beInstance (ps ! childOf (ps ! p)) \<noteq> None"
    by (simp add: optPeers_def)
  from inv(2) c have "if \<exists>j<length ps. isOptParent (ps ! j) \<and> childOf (ps ! j) = c
      then \<exists>j<length ps. optProd (ps' ! c) = Some j \<and> isOptParent (ps ! j) \<and>
             childOf (ps ! j) = c \<and>
             (\<forall>i<length ps. isOptParent (ps ! i) \<and> childOf (ps ! i) = c \<longrightarrow> i \<le> j)
      else optProd (ps' ! c) = optProd (ps ! c) \<and>
           transferName (ps' ! c) = transferName (ps ! c)"
    by (simp add: optPeers_def)
  then obtain j where j: "j < length ps" "optProd (ps' ! c) = Some j" "isOptParent (ps ! j)"
    "childOf (ps ! j) = c"
    "\<forall>i<length ps. isOptParent (ps ! i) \<and> childOf (ps ! i) = c \<longrightarrow> i \<le> j"
    unfolding if_P [OF ex] by blast
  have pj: "p \<le> j" using j(5) p par ch by blast
  have peer: "optProd (ps' ! c) = Some p \<longleftrightarrow>
      (\<forall>i<length ps. isOptParent (ps ! i) \<and> childOf (ps ! i) = c \<longrightarrow> i \<le> p)"
  proof
    assume "optProd (ps' ! c) = Some p"
    then have "j = p" using j(2) by simp
    then show "\<forall>i<length ps. isOptParent (ps ! i) \<and> childOf (ps ! i) = c \<longrightarrow> i \<le> p"
      using j(5) by simp
  next
    assume "\<forall>i<length ps. isOptParent (ps ! i) \<and> childOf (ps ! i) = c \<longrightarrow> i \<le> p"
    then have "j \<le> p" using j(1,3,4) by blast
    then have "j = p" using pj by simp
    then show "optProd (ps' ! c) = Some p" using j(2) by simp
  qed
  show "optProd (ps' ! p) = Some c" using r ch by simp
  show "isOptional (ps' ! p) = 1 \<longleftrightarrow> isInstance (ps ! c) \<or> beInstance (ps ! c) \<noteq> None"
    using one ch by simp
  show "isOptional (ps' ! c) = 3" by (rule three)
  show "optProd (ps' ! c) = Some p \<longleftrightarrow>
      (\<forall>i<length ps. isOptParent (ps ! i) \<and> childOf (ps ! i) = c \<longrightarrow> i \<le> p)"
    by (rule peer)
next
  fix ps' p
  assume run: "findOptProds ps = Inr ps'" and p: "p < length ps"
    and no: "\<not> isOptParent (ps ! p) \<and>
             \<not> (\<exists>j<length ps. isOptParent (ps ! j) \<and> childOf (ps ! j) = p)"
  from no have np: "\<not> isOptParent (ps ! p)"
    and nc: "\<not> (\<exists>j<length ps. isOptParent (ps ! j) \<and> childOf (ps ! j) = p)" by simp_all
  note inv = findOptProds_final [OF init wf run]
  from inv(1) p np have "if \<exists>j<length ps. isOptParent (ps ! j) \<and> childOf (ps ! j) = p
      then isOptional (ps' ! p) = 3 else isOptional (ps' ! p) = 0"
    by (simp add: optInv_def)
  then have "isOptional (ps' ! p) = 0" unfolding if_not_P [OF nc] .
  then have a: "isOptional (ps' ! p) = isOptional (ps ! p)" using init p by simp
  from inv(2) p np have "if \<exists>j<length ps. isOptParent (ps ! j) \<and> childOf (ps ! j) = p
      then \<exists>j<length ps. optProd (ps' ! p) = Some j \<and> isOptParent (ps ! j) \<and>
             childOf (ps ! j) = p \<and>
             (\<forall>i<length ps. isOptParent (ps ! i) \<and> childOf (ps ! i) = p \<longrightarrow> i \<le> j)
      else optProd (ps' ! p) = optProd (ps ! p) \<and>
           transferName (ps' ! p) = transferName (ps ! p)"
    by (simp add: optPeers_def)
  then have b: "optProd (ps' ! p) = optProd (ps ! p) \<and>
           transferName (ps' ! p) = transferName (ps ! p)" unfolding if_not_P [OF nc] .
  have "ps' ! p = (ps ! p)\<lparr>isOptional := isOptional (ps' ! p),
                                  optProd := optProd (ps' ! p),
                                  transferName := transferName (ps' ! p)\<rparr>"
    using run p by (rule findOptProds_fields)
  then have "ps' ! p = (ps ! p)\<lparr>isOptional := isOptional (ps ! p),
                                  optProd := optProd (ps ! p),
                                  transferName := transferName (ps ! p)\<rparr>"
    unfolding a using b by simp
  then show "ps' ! p = ps ! p" by simp
next
  assume "\<forall>q<length ps. beInstance (ps ! q) \<noteq> None \<longrightarrow>
             (\<exists>prd<length ps. q \<in> set (ancestors (ps ! prd)) \<and> isInstance (ps ! prd))"
  with init wf show "\<exists>ps'. findOptProds ps = Inr ps'" by (rule findOptProds_total)
next
  fix e assume "findOptProds ps = Inl e"
  with init wf show "\<exists>p<length ps. isOptParent (ps ! p) \<and> e = NoTransferName (lhs (ps ! p)) \<and>
               \<not> isInstance (ps ! childOf (ps ! p)) \<and>
               beInstance (ps ! childOf (ps ! p)) \<noteq> None \<and>
               (\<forall>prd<length ps. \<not> (childOf (ps ! p) \<in> set (ancestors (ps ! prd)) \<and>
                                     isInstance (ps ! prd)))"
    by (rule findOptProds_Inl)
qed


text \<open>
  On \<open>optShape = shape | '$' ; shape = circle ; circle = CIRCLE ; instance = circle ;\<close>,
  after the passes of main up to findBeInstance: \<open>optShape\<close> gets the role 1 and
  \<open>shape\<close> the role 3, each as the optProd of the other, and \<open>circle\<close> is left as it
  was.
\<close>

theorem findOptProds_classifies_witness:
  "defs (bindAndClassify optionalShape ! 0) =
     [[\<lparr>theType = NONTERMINAL, itemName = ''shape'', prodValue = Some 1\<rparr>],
      [\<lparr>theType = ONECHAR, itemName = ''$'', prodValue = None\<rparr>]] \<and>
   \<not> isInstance (bindAndClassify optionalShape ! 1) \<and>
   beInstance (bindAndClassify optionalShape ! 1) = Some 2 \<and>
   \<not> isl (findOptProds (bindAndClassify optionalShape)) \<and>
   isOptional (projr (findOptProds (bindAndClassify optionalShape)) ! 0) = 1 \<and>
   optProd (projr (findOptProds (bindAndClassify optionalShape)) ! 0) = Some 1 \<and>
   isOptional (projr (findOptProds (bindAndClassify optionalShape)) ! 1) = 3 \<and>
   optProd (projr (findOptProds (bindAndClassify optionalShape)) ! 1) = Some 0 \<and>
   projr (findOptProds (bindAndClassify optionalShape)) ! 2 = bindAndClassify optionalShape ! 2"
proof -
  let ?ps = "bindAndClassify optionalShape"
  let ?F = "\<lambda>p. (defs p, isOptional p, isInstance p, beInstance p, ancestors p)"
  have ev: "map ?F ?ps =
     [([[\<lparr>theType = NONTERMINAL, itemName = ''shape'', prodValue = Some (Suc 0)\<rparr>],
        [\<lparr>theType = ONECHAR, itemName = ''$'', prodValue = None\<rparr>]],
       0, False, None, []),
      ([[\<lparr>theType = NONTERMINAL, itemName = ''circle'', prodValue = Some (Suc (Suc 0))\<rparr>]],
       0, False, Some (Suc (Suc 0)), []),
      ([[\<lparr>theType = KEYWORD, itemName = ''CIRCLE'', prodValue = None\<rparr>]],
       0, True, None, [Suc 0]),
      ([[\<lparr>theType = NONTERMINAL, itemName = ''circle'', prodValue = Some (Suc (Suc 0))\<rparr>]],
       0, False, None, [])]"
    by (simp add: optionalShape_def eval_defs eval_opt_defs numeral_2_eq_2)
  from arg_cong [where f = length, OF ev]
  have len: "length ?ps = Suc (Suc (Suc (Suc 0)))" by simp
  from arg_cong [where f = "\<lambda>xs. xs ! 0", OF ev] len
  have f0: "defs (?ps ! 0) =
      [[\<lparr>theType = NONTERMINAL, itemName = ''shape'', prodValue = Some (Suc 0)\<rparr>],
       [\<lparr>theType = ONECHAR, itemName = ''$'', prodValue = None\<rparr>]]"
    "isOptional (?ps ! 0) = 0" "\<not> isInstance (?ps ! 0)" "beInstance (?ps ! 0) = None"
    "ancestors (?ps ! 0) = []" by simp_all
  from arg_cong [where f = "\<lambda>xs. xs ! Suc 0", OF ev] len
  have f1: "defs (?ps ! Suc 0) =
      [[\<lparr>theType = NONTERMINAL, itemName = ''circle'', prodValue = Some (Suc (Suc 0))\<rparr>]]"
    "isOptional (?ps ! Suc 0) = 0" "\<not> isInstance (?ps ! Suc 0)"
    "beInstance (?ps ! Suc 0) = Some (Suc (Suc 0))" "ancestors (?ps ! Suc 0) = []"
    by simp_all
  from arg_cong [where f = "\<lambda>xs. xs ! Suc (Suc 0)", OF ev] len
  have f2: "defs (?ps ! Suc (Suc 0)) =
      [[\<lparr>theType = KEYWORD, itemName = ''CIRCLE'', prodValue = None\<rparr>]]"
    "isOptional (?ps ! Suc (Suc 0)) = 0" "isInstance (?ps ! Suc (Suc 0))"
    "beInstance (?ps ! Suc (Suc 0)) = None" "ancestors (?ps ! Suc (Suc 0)) = [Suc 0]"
    by simp_all
  from arg_cong [where f = "\<lambda>xs. xs ! Suc (Suc (Suc 0))", OF ev] len
  have f3: "defs (?ps ! Suc (Suc (Suc 0))) =
      [[\<lparr>theType = NONTERMINAL, itemName = ''circle'', prodValue = Some (Suc (Suc 0))\<rparr>]]"
    "isOptional (?ps ! Suc (Suc (Suc 0))) = 0" "\<not> isInstance (?ps ! Suc (Suc (Suc 0)))"
    "beInstance (?ps ! Suc (Suc (Suc 0))) = None" "ancestors (?ps ! Suc (Suc (Suc 0))) = []"
    by simp_all
  have par: "isOptParent (?ps ! 0)" "childOf (?ps ! 0) = Suc 0"
    "\<not> isOptParent (?ps ! Suc 0)" "\<not> isOptParent (?ps ! Suc (Suc 0))"
    "\<not> isOptParent (?ps ! Suc (Suc (Suc 0)))"
    by (simp_all add: isOptParent_def childOf_def f0(1) f1(1) f2(1) f3(1))
  have init: "\<forall>q<length ?ps. isOptional (?ps ! q) = 0"
    unfolding len All_less_Suc by (simp add: f0(2) f1(2) f2(2) f3(2))
  have wf: "\<forall>q<length ?ps. isOptParent (?ps ! q) \<longrightarrow>
               childOf (?ps ! q) < length ?ps \<and> \<not> isOptParent (?ps ! childOf (?ps ! q))"
    unfolding len All_less_Suc by (simp add: par)
  have be: "\<forall>q<length ?ps. beInstance (?ps ! q) \<noteq> None \<longrightarrow>
             (\<exists>prd<length ?ps. q \<in> set (ancestors (?ps ! prd)) \<and> isInstance (?ps ! prd))"
    unfolding len All_less_Suc Ex_less_Suc
    by (simp add: f0(4) f1(4) f2(3,4,5) f3(4))
  have n2: "\<not> isOptParent (?ps ! Suc (Suc 0)) \<and>
            \<not> (\<exists>j<length ?ps. isOptParent (?ps ! j) \<and> childOf (?ps ! j) = Suc (Suc 0))"
    unfolding len Ex_less_Suc by (simp add: par)
  have last: "\<forall>i<length ?ps. isOptParent (?ps ! i) \<and> childOf (?ps ! i) = Suc 0 \<longrightarrow> i \<le> 0"
    unfolding len All_less_Suc by (simp add: par)
  have p0: "0 < length ?ps" and p2: "Suc (Suc 0) < length ?ps" by (simp_all add: len)
  note th = findOptProds_classifies [OF init wf]
  from th [THEN conjunct2, THEN conjunct1] be
  have "\<exists>ps'. findOptProds ?ps = Inr ps'" by (rule mp)
  then obtain ps' where run: "findOptProds ?ps = Inr ps'" ..
  note cls = th [THEN conjunct1, rule_format, OF run, THEN conjunct2, rule_format]
  have sh: "defs (?ps ! 0) =
       [[\<lparr>theType = NONTERMINAL, itemName = ''shape'', prodValue = Some (Suc 0)\<rparr>],
        [\<lparr>theType = ONECHAR, itemName = ''$'', prodValue = None\<rparr>]] \<and>
     prodValue \<lparr>theType = NONTERMINAL, itemName = ''shape'', prodValue = Some (Suc 0)\<rparr>
       = Some (Suc 0) \<and>
     theType \<lparr>theType = ONECHAR, itemName = ''$'', prodValue = None\<rparr> = ONECHAR \<and>
     itemName \<lparr>theType = ONECHAR, itemName = ''$'', prodValue = None\<rparr> = ''$''"
    using f0(1) by simp
  note role = cls [OF p0, THEN conjunct2, THEN conjunct2, THEN conjunct1, rule_format, OF sh]
  from role have a: "optProd (ps' ! 0) = Some (Suc 0)" by (rule conjunct1)
  from role f1(4) have b: "isOptional (ps' ! 0) = 1" by simp
  from role have c: "isOptional (ps' ! Suc 0) = 3" by simp
  from role last have e: "optProd (ps' ! Suc 0) = Some 0" by simp
  from cls [OF p2, THEN conjunct2, THEN conjunct2, THEN conjunct2] n2
  have f: "ps' ! Suc (Suc 0) = ?ps ! Suc (Suc 0)" by (rule mp)
  from f0(1) f1(3,4) run a b c e f show ?thesis by (simp add: numeral_2_eq_2)
qed

text \<open>
  C6 as stated fails on \<open>optDirection = '$' | direction ;\<close>: the production has two
  definitions of one expression each, one the single character \<open>$\<close> and the other a
  nonterminal bound to a production, and findOptProds leaves every production as it
  was, with no role and no optProd.
\<close>

theorem findOptProds_order_counterexample:
  "defs (bindAndClassify optionalReversed ! 0) =
     [[\<lparr>theType = ONECHAR, itemName = ''$'', prodValue = None\<rparr>],
      [\<lparr>theType = NONTERMINAL, itemName = ''direction'', prodValue = Some 1\<rparr>]] \<and>
   findOptProds (bindAndClassify optionalReversed) = Inr (bindAndClassify optionalReversed) \<and>
   isOptional (bindAndClassify optionalReversed ! 0) = 0 \<and>
   optProd (bindAndClassify optionalReversed ! 0) = None \<and>
   isOptional (bindAndClassify optionalReversed ! 1) = 0"
  by (simp add: optionalReversed_def eval_defs eval_opt_defs)

subsection \<open>The order in which classes are printed (C4)\<close>

text \<open>
  \<open>printedInOrder ps inst out\<close>: every production of \<open>out\<close> stands after all members
  of its subtypeOf list and, when it is an instance, after the production \<open>instance\<close>.
\<close>

definition printedInOrder :: "production list \<Rightarrow> nat option \<Rightarrow> nat list \<Rightarrow> bool" where
  "printedInOrder ps inst out \<longleftrightarrow>
     (\<forall>k<length out.
        (\<forall>s\<in>set (subtypeOf (ps ! (out ! k))). s \<in> set (take k out)) \<and>
        (isInstance (ps ! (out ! k)) \<longrightarrow> (\<exists>ip. inst = Some ip \<and> ip \<in> set (take k out))))"

lemma printedInOrder_snoc:
  assumes "printedInOrder ps inst out"
    and "\<forall>s\<in>set (subtypeOf (ps ! prd)). s \<in> set out"
    and "isInstance (ps ! prd) \<longrightarrow> (\<exists>ip. inst = Some ip \<and> ip \<in> set out)"
  shows "printedInOrder ps inst (out @ [prd])"
  unfolding printedInOrder_def
proof (intro allI impI)
  fix k assume k: "k < length (out @ [prd])"
  show "(\<forall>s\<in>set (subtypeOf (ps ! ((out @ [prd]) ! k))). s \<in> set (take k (out @ [prd]))) \<and>
        (isInstance (ps ! ((out @ [prd]) ! k)) \<longrightarrow>
           (\<exists>ip. inst = Some ip \<and> ip \<in> set (take k (out @ [prd]))))"
  proof (cases "k < length out")
    case True
    then have "(out @ [prd]) ! k = out ! k" "take k (out @ [prd]) = take k out"
      by (simp_all add: nth_append)
    then show ?thesis using assms(1) True by (simp add: printedInOrder_def)
  next
    case False
    with k have "k = length out" by simp
    then have "(out @ [prd]) ! k = prd" "take k (out @ [prd]) = out" by simp_all
    then show ?thesis using assms(2,3) by simp
  qed
qed

text \<open>What holds of the productions and of the classes printed so far during the loop.\<close>

definition printInv :: "production list \<Rightarrow> nat option \<Rightarrow> nat list \<Rightarrow> production list
    \<Rightarrow> nat list \<Rightarrow> bool" where
  "printInv ps inst toPrint st out \<longleftrightarrow>
     length st = length ps \<and>
     (\<forall>q<length ps. subtypeOf (st ! q) = subtypeOf (ps ! q) \<and>
                     isInstance (st ! q) = isInstance (ps ! q) \<and>
                     (wasPrinted (st ! q) \<longleftrightarrow> q \<in> set out)) \<and>
     distinct out \<and> set out \<subseteq> set toPrint \<and> printedInOrder ps inst out"

lemma printPass_inv:
  assumes range: "\<forall>prd\<in>set toPrint. prd < length ps"
    and wf: "\<forall>q<length ps. \<forall>s\<in>set (subtypeOf (ps ! q)). s < length ps"
    and inst: "\<forall>ip. inst = Some ip \<longrightarrow> ip < length ps"
  shows "printPass inst cells (st, out, k) = Inr (st', out', k') \<Longrightarrow>
         printInv ps inst toPrint st out \<Longrightarrow> set cells \<subseteq> set toPrint \<Longrightarrow>
         printInv ps inst toPrint st' out' \<and> length out' = length out + (k' - k) \<and> k \<le> k'"
proof (induction cells arbitrary: st out k)
  case Nil
  then show ?case by simp
next
  case (Cons prd cells)
  from Cons.prems(3) have prdT: "prd \<in> set toPrint" and cellsT: "set cells \<subseteq> set toPrint" by auto
  with range have prd: "prd < length ps" by simp
  from Cons.prems(2) have len: "length st = length ps"
    and fr: "\<And>q. q < length ps \<Longrightarrow> subtypeOf (st ! q) = subtypeOf (ps ! q) \<and>
                     isInstance (st ! q) = isInstance (ps ! q) \<and>
                     (wasPrinted (st ! q) \<longleftrightarrow> q \<in> set out)"
    and dist: "distinct out" and sub: "set out \<subseteq> set toPrint"
    and ord: "printedInOrder ps inst out"
    by (simp_all add: printInv_def)
  let ?print = "\<not> wasPrinted (st ! prd) \<and>
      \<not> (isInstance (st ! prd) \<and> \<not> wasPrinted (st ! the inst)) \<and>
      list_all (\<lambda>super. wasPrinted (st ! super)) (subtypeOf (st ! prd))"
  show ?case
  proof (cases ?print)
    case False
    with Cons.prems(1) have "printPass inst cells (st, out, k) = Inr (st', out', k')"
      by (auto split: if_splits)
    from Cons.IH [OF this Cons.prems(2) cellsT] show ?thesis .
  next
    case True
    let ?st1 = "modify prd (\<lambda>p. p\<lparr>wasPrinted := True\<rparr>) st"
    from True Cons.prems(1) have ni: "\<not> (isInstance (st ! prd) \<and> inst = None)"
      by (auto split: if_splits)
    with True Cons.prems(1)
    have rec: "printPass inst cells (?st1, out @ [prd], Suc k) = Inr (st', out', k')"
      by (auto split: if_splits)
    have notin: "prd \<notin> set out" using True fr [OF prd] by simp
    have supers: "\<forall>s\<in>set (subtypeOf (ps ! prd)). s \<in> set out"
    proof
      fix s assume s: "s \<in> set (subtypeOf (ps ! prd))"
      then have "s < length ps" using wf prd by blast
      moreover have "wasPrinted (st ! s)"
        using True s fr [OF prd] by (simp add: list_all_iff)
      ultimately show "s \<in> set out" using fr [of s] by simp
    qed
    have instp: "isInstance (ps ! prd) \<longrightarrow> (\<exists>ip. inst = Some ip \<and> ip \<in> set out)"
    proof
      assume "isInstance (ps ! prd)"
      then have i: "isInstance (st ! prd)" using fr [OF prd] by simp
      with ni obtain ip where ip: "inst = Some ip" by auto
      with inst have "ip < length ps" by simp
      moreover have "wasPrinted (st ! ip)" using True i ip by simp
      ultimately have "ip \<in> set out" using fr [of ip] by simp
      with ip show "\<exists>ip. inst = Some ip \<and> ip \<in> set out" by simp
    qed
    have inv1: "printInv ps inst toPrint ?st1 (out @ [prd])"
      unfolding printInv_def
    proof (intro conjI allI impI)
      show "length ?st1 = length ps" using len by simp
      show "distinct (out @ [prd])" using dist notin by simp
      show "set (out @ [prd]) \<subseteq> set toPrint" using sub prdT by simp
      show "printedInOrder ps inst (out @ [prd])"
        using ord supers instp by (rule printedInOrder_snoc)
    next
      fix q assume q: "q < length ps"
      show "subtypeOf (?st1 ! q) = subtypeOf (ps ! q)"
        using fr [OF q] fr [OF prd] by (simp add: modify_nth)
      show "isInstance (?st1 ! q) = isInstance (ps ! q)"
        using fr [OF q] fr [OF prd] by (simp add: modify_nth)
      show "wasPrinted (?st1 ! q) = (q \<in> set (out @ [prd]))"
        using fr [OF q] fr [OF prd] prd len by (auto simp: modify_nth)
    qed
    from Cons.IH [OF rec inv1 cellsT] show ?thesis by auto
  qed
qed


lemma printLoop_inv:
  assumes range: "\<forall>prd\<in>set toPrint. prd < length ps"
    and wf: "\<forall>q<length ps. \<forall>s\<in>set (subtypeOf (ps ! q)). s < length ps"
    and inst: "\<forall>ip. inst = Some ip \<longrightarrow> ip < length ps"
  shows "printLoop n inst toPrint (st, out, tot) = Inr (st', out', total') \<Longrightarrow>
         printInv ps inst toPrint st out \<Longrightarrow>
         printInv ps inst toPrint st' out' \<and> length out' = length out + (total' - tot) \<and>
         tot \<le> total'"
proof (induction n arbitrary: st out tot)
  case 0
  then show ?case by simp
next
  case (Suc n)
  from Suc.prems(1) obtain st1 out1 k1
    where pass: "printPass inst toPrint (st, out, 0) = Inr (st1, out1, k1)"
    by (auto split: sum.splits)
  from printPass_inv [OF range wf inst pass Suc.prems(2)]
  have inv1: "printInv ps inst toPrint st1 out1" and len1: "length out1 = length out + k1"
    by simp_all
  show ?case
  proof (cases "k1 = 0")
    case True
    with Suc.prems(1) pass have "st' = st1" "out' = out1" "total' = tot" by simp_all
    with inv1 len1 True show ?thesis by simp
  next
    case False
    with Suc.prems(1) pass
    have "printLoop n inst toPrint (st1, out1, tot + k1) = Inr (st', out', total')" by simp
    from Suc.IH [OF this inv1] len1 show ?thesis by auto
  qed
qed

lemma selectProductions_range: "\<forall>prd\<in>set (selectProductions g). prd < length (productions g)"
  by (simp add: selectProductions_def)

lemma selectProductions_distinct: "distinct (selectProductions g)"
  by (simp add: selectProductions_def)

lemma findProd_range: "findProd ps name = Some ip \<Longrightarrow> ip < length ps"
  unfolding findProd_def by (auto simp: find_Some_iff)

lemma distinct_subset_length:
  assumes "distinct out" "distinct toPrint" "set out \<subseteq> set toPrint"
  shows "length out = length toPrint \<longleftrightarrow> set out = set toPrint"
proof -
  have "length out = card (set out)" "length toPrint = card (set toPrint)"
    using assms(1,2) by (simp_all add: distinct_card)
  then show ?thesis
    using assms(3) card_subset_eq [of "set toPrint" "set out"] by auto
qed


text \<open>A pass that prints nothing changes nothing, and the loop stops there.\<close>

lemma printPass_count:
  "printPass inst cells (st, out, k) = Inr (st', out', k') \<Longrightarrow>
   k \<le> k' \<and> (k' = k \<longrightarrow> st' = st \<and> out' = out)"
proof (induction cells arbitrary: st out k)
  case Nil
  then show ?case by simp
next
  case (Cons prd cells)
  let ?print = "\<not> wasPrinted (st ! prd) \<and>
      \<not> (isInstance (st ! prd) \<and> \<not> wasPrinted (st ! the inst)) \<and>
      list_all (\<lambda>super. wasPrinted (st ! super)) (subtypeOf (st ! prd))"
  show ?case
  proof (cases ?print)
    case False
    with Cons.prems have "printPass inst cells (st, out, k) = Inr (st', out', k')"
      by (auto split: if_splits)
    then show ?thesis by (rule Cons.IH)
  next
    case True
    with Cons.prems
    have "printPass inst cells (modify prd (\<lambda>p. p\<lparr>wasPrinted := True\<rparr>) st, out @ [prd], Suc k)
          = Inr (st', out', k')"
      by (auto split: if_splits)
    from Cons.IH [OF this] have "Suc k \<le> k'" by simp
    then show ?thesis by simp
  qed
qed

lemma printLoop_stays:
  assumes "printPass inst toPrint (st, out, 0) = Inr (st', out', 0)"
  shows "printLoop n inst toPrint (st, out, tot) = Inr (st, out, tot)"
proof (cases n)
  case 0
  then show ?thesis by simp
next
  case (Suc m)
  from printPass_count [OF assms] have "st' = st" "out' = out" by simp_all
  with assms Suc show ?thesis by simp
qed

lemma printLoop_add:
  "printLoop m inst toPrint (st, out, tot) = Inr (st', out', tot') \<Longrightarrow>
   printLoop (m + k) inst toPrint (st, out, tot) = printLoop k inst toPrint (st', out', tot')"
proof (induction m arbitrary: st out tot)
  case 0
  then show ?case by simp
next
  case (Suc m)
  from Suc.prems obtain st1 out1 k1
    where pass: "printPass inst toPrint (st, out, 0) = Inr (st1, out1, k1)"
    by (auto split: sum.splits)
  show ?case
  proof (cases "k1 = 0")
    case True
    with Suc.prems pass have e: "st' = st1" "out' = out1" "tot' = tot" by simp_all
    from printPass_count [OF pass] True have s: "st1 = st" "out1 = out" by simp_all
    have "printPass inst toPrint (st, out, 0) = Inr (st, out, 0)"
      using pass True s by simp
    then have "printLoop k inst toPrint (st, out, tot) = Inr (st, out, tot)"
      and "printLoop (Suc m + k) inst toPrint (st, out, tot) = Inr (st, out, tot)"
      by (rule printLoop_stays)+
    then show ?thesis using e s by simp
  next
    case False
    with Suc.prems pass
    have "printLoop m inst toPrint (st1, out1, tot + k1) = Inr (st', out', tot')" by simp
    from Suc.IH [OF this] pass False show ?thesis by simp
  qed
qed


text \<open>
  C4. printCppClasses starts from productions none of which is marked as printed and
  whose subtypeOf lists point into the list. Whatever number of times its loop has run,
  the classes printed so far are selected productions, each printed once, every one
  after all members of its subtypeOf list and, if it is an instance, after the
  production \<open>instance\<close>; and when the next pass over the selected productions prints
  nothing while some selected production is not yet printed, the program ends with the
  diagnostic that a loop was found. When printCppClasses returns, the classes printed
  are exactly the selected productions, in such an order.
\<close>

theorem printCppClasses_supertypes_first:
  assumes init: "\<forall>q<length (productions g). \<not> wasPrinted (productions g ! q)"
    and wf: "\<forall>q<length (productions g). \<forall>s\<in>set (subtypeOf (productions g ! q)).
               s < length (productions g)"
  shows "(\<forall>m st out tot.
            printLoop m (findProd (productions g) ''instance'') (selectProductions g)
              (productions g, [], 0) = Inr (st, out, tot) \<longrightarrow>
            distinct out \<and> set out \<subseteq> set (selectProductions g) \<and> tot = length out \<and>
            (\<forall>k<length out.
               (\<forall>s\<in>set (subtypeOf (productions g ! (out ! k))). s \<in> set (take k out)) \<and>
               (isInstance (productions g ! (out ! k)) \<longrightarrow>
                  (\<exists>ip. findProd (productions g) ''instance'' = Some ip \<and>
                        ip \<in> set (take k out)))) \<and>
            (m \<le> length (selectProductions g) \<and>
             (\<exists>prd\<in>set (selectProductions g). prd \<notin> set out) \<and>
             (\<exists>st' out'. printPass (findProd (productions g) ''instance'')
                            (selectProductions g) (st, out, 0) = Inr (st', out', 0)) \<longrightarrow>
             printCppClasses g = Inl LoopInProductions)) \<and>
         (\<forall>g'. printCppClasses g = Inr g' \<longrightarrow>
            set (classesPrinted g') = set (selectProductions g) \<and>
            distinct (classesPrinted g') \<and>
            (\<forall>k<length (classesPrinted g').
               (\<forall>s\<in>set (subtypeOf (productions g ! (classesPrinted g' ! k))).
                   s \<in> set (take k (classesPrinted g'))) \<and>
               (isInstance (productions g ! (classesPrinted g' ! k)) \<longrightarrow>
                  (\<exists>ip. findProd (productions g) ''instance'' = Some ip \<and>
                        ip \<in> set (take k (classesPrinted g'))))))"
proof -
  let ?ps = "productions g" and ?inst = "findProd (productions g) ''instance''"
    and ?toPrint = "selectProductions g"
  have inv0: "printInv ?ps ?inst ?toPrint ?ps []"
    using init by (simp add: printInv_def printedInOrder_def)
  have instr: "\<forall>ip. ?inst = Some ip \<longrightarrow> ip < length ?ps"
    using findProd_range by blast
  have stage: "distinct out \<and> set out \<subseteq> set ?toPrint \<and> tot = length out \<and>
      printedInOrder ?ps ?inst out"
    if loop: "printLoop m ?inst ?toPrint (?ps, [], 0) = Inr (st, out, tot)" for m st out tot
  proof -
    from printLoop_inv [OF selectProductions_range wf instr loop inv0]
    have inv: "printInv ?ps ?inst ?toPrint st out" and len: "length out = tot" by simp_all
    from inv len show ?thesis by (simp add: printInv_def)
  qed
  have order: "(\<forall>s\<in>set (subtypeOf (?ps ! (out ! k))). s \<in> set (take k out)) \<and>
        (isInstance (?ps ! (out ! k)) \<longrightarrow> (\<exists>ip. ?inst = Some ip \<and> ip \<in> set (take k out)))"
    if "printedInOrder ?ps ?inst out" "k < length out" for out k
    using that unfolding printedInOrder_def by blast
  have stops: "printCppClasses g = Inl LoopInProductions"
    if loop: "printLoop m ?inst ?toPrint (?ps, [], 0) = Inr (st, out, tot)"
      and m: "m \<le> length ?toPrint" and rest: "\<exists>prd\<in>set ?toPrint. prd \<notin> set out"
      and pass: "printPass ?inst ?toPrint (st, out, 0) = Inr (st', out', 0)"
    for m st out tot st' out'
  proof -
    from stage [OF loop] have d: "distinct out" and sub: "set out \<subseteq> set ?toPrint"
      and tot: "tot = length out" by simp_all
    from rest have "set out \<noteq> set ?toPrint" by blast
    then have ne: "length out \<noteq> length ?toPrint"
      using distinct_subset_length [OF d selectProductions_distinct sub] by simp
    have "printLoop (m + (length ?toPrint - m)) ?inst ?toPrint (?ps, [], 0)
          = printLoop (length ?toPrint - m) ?inst ?toPrint (st, out, tot)"
      using loop by (rule printLoop_add)
    also have "\<dots> = Inr (st, out, tot)" using pass by (rule printLoop_stays)
    finally have "printLoop (length ?toPrint) ?inst ?toPrint (?ps, [], 0) = Inr (st, out, tot)"
      using m by simp
    then show ?thesis using ne tot by (simp add: printCppClasses_def printFrom_def Let_def)
  qed
  have returns: "set (classesPrinted g') = set ?toPrint \<and> distinct (classesPrinted g') \<and>
      printedInOrder ?ps ?inst (classesPrinted g')"
    if run: "printCppClasses g = Inr g'" for g'
  proof -
    from run obtain st out tot
      where loop: "printLoop (length ?toPrint) ?inst ?toPrint (?ps, [], 0) = Inr (st, out, tot)"
        and tot: "tot = length ?toPrint" and g': "classesPrinted g' = out"
      by (auto simp: printCppClasses_def printFrom_def Let_def split: sum.splits if_splits)
    from stage [OF loop] have d: "distinct out" and sub: "set out \<subseteq> set ?toPrint"
      and len: "tot = length out" and ord: "printedInOrder ?ps ?inst out" by simp_all
    have "set out = set ?toPrint"
      using distinct_subset_length [OF d selectProductions_distinct sub] len tot by simp
    with d ord g' show ?thesis by simp
  qed
  show ?thesis
  proof (intro conjI allI impI)
    fix m st out tot
    assume loop: "printLoop m ?inst ?toPrint (?ps, [], 0) = Inr (st, out, tot)"
    from stage [OF loop] show "distinct out" "set out \<subseteq> set ?toPrint" "tot = length out"
      by simp_all
  next
    fix m st out tot k
    assume loop: "printLoop m ?inst ?toPrint (?ps, [], 0) = Inr (st, out, tot)"
      and k: "k < length out"
    from stage [OF loop] have "printedInOrder ?ps ?inst out" by simp
    from order [OF this k]
    show "\<forall>s\<in>set (subtypeOf (?ps ! (out ! k))). s \<in> set (take k out)"
      and "isInstance (?ps ! (out ! k)) \<Longrightarrow> \<exists>ip. ?inst = Some ip \<and> ip \<in> set (take k out)"
      by simp_all
  next
    fix m st out tot
    assume loop: "printLoop m ?inst ?toPrint (?ps, [], 0) = Inr (st, out, tot)"
      and a: "m \<le> length ?toPrint \<and> (\<exists>prd\<in>set ?toPrint. prd \<notin> set out) \<and>
              (\<exists>st' out'. printPass ?inst ?toPrint (st, out, 0) = Inr (st', out', 0))"
    from a have m: "m \<le> length ?toPrint" and rest: "\<exists>prd\<in>set ?toPrint. prd \<notin> set out"
      by simp_all
    from a obtain st' out'
      where pass: "printPass ?inst ?toPrint (st, out, 0) = Inr (st', out', 0)" by blast
    from loop m rest pass show "printCppClasses g = Inl LoopInProductions" by (rule stops)
  next
    fix g' assume run: "printCppClasses g = Inr g'"
    from returns [OF run] show "set (classesPrinted g') = set ?toPrint"
      "distinct (classesPrinted g')" by simp_all
  next
    fix g' k assume run: "printCppClasses g = Inr g'" and k: "k < length (classesPrinted g')"
    from returns [OF run] have "printedInOrder ?ps ?inst (classesPrinted g')" by simp
    from order [OF this k]
    show "\<forall>s\<in>set (subtypeOf (?ps ! (classesPrinted g' ! k))).
             s \<in> set (take k (classesPrinted g'))"
      and "isInstance (?ps ! (classesPrinted g' ! k)) \<Longrightarrow>
             \<exists>ip. ?inst = Some ip \<and> ip \<in> set (take k (classesPrinted g'))"
      by simp_all
  qed
qed


text \<open>
  On \<open>a = KA ; kind = a ;\<close> the class of \<open>kind\<close> is printed before the class of its
  subtype \<open>a\<close>, which stands first in the grammar. On \<open>x = y ; y = x ;\<close> the first pass
  prints nothing, and the program ends with the diagnostic.
\<close>

theorem printCppClasses_supertypes_first_witness:
  "subtypeOf (productions (projr (the (analyse 5 subtypeFirstFile))) ! 0) = [1] \<and>
   classesPrinted (projr (printCppClasses (projr (the (analyse 5 subtypeFirstFile))))) = [1, 0] \<and>
   printCppClasses (projr (the (analyse 5 cycleFile))) = Inl LoopInProductions"
proof -
  let ?F = "\<lambda>p. (lhs p, isList p, isOptional p, isInstance p, subtypeOf p, wasPrinted p)"
  have "\<exists>g. analyse 5 subtypeFirstFile = Some (Inr g) \<and>
          map ?F (productions g) =
            [(''a'', 0, 0, False, [Suc 0], False), (''kind'', 0, 0, False, [], False)] \<and>
          terminalNames g = [] \<and>
          tokenNames g = (\<lambda>row. if row = 10 then [''KA''] else [])"
    by (simp add: subtypeFirstFile_def eval_main_defs eval_defs eval_opt_defs)
  then obtain g where run: "analyse 5 subtypeFirstFile = Some (Inr g)"
    and ev: "map ?F (productions g) =
            [(''a'', 0, 0, False, [Suc 0], False), (''kind'', 0, 0, False, [], False)]"
    and tm: "terminalNames g = []"
    and tk: "tokenNames g = (\<lambda>row. if row = 10 then [''KA''] else [])"
    by (elim exE conjE)
  from arg_cong [where f = length, OF ev]
  have len: "length (productions g) = Suc (Suc 0)" by simp
  from arg_cong [where f = "\<lambda>xs. xs ! 0", OF ev] len
  have f0: "lhs (productions g ! 0) = ''a''" "isList (productions g ! 0) = 0"
    "isOptional (productions g ! 0) = 0" "\<not> isInstance (productions g ! 0)"
    "subtypeOf (productions g ! 0) = [Suc 0]" "\<not> wasPrinted (productions g ! 0)"
    by simp_all
  from arg_cong [where f = "\<lambda>xs. xs ! Suc 0", OF ev] len
  have f1: "lhs (productions g ! Suc 0) = ''kind''" "isList (productions g ! Suc 0) = 0"
    "isOptional (productions g ! Suc 0) = 0" "\<not> isInstance (productions g ! Suc 0)"
    "subtypeOf (productions g ! Suc 0) = []" "\<not> wasPrinted (productions g ! Suc 0)"
    by simp_all
  have init: "\<forall>q<length (productions g). \<not> wasPrinted (productions g ! q)"
    unfolding len All_less_Suc by (simp add: f0 f1)
  have wf: "\<forall>q<length (productions g). \<forall>s\<in>set (subtypeOf (productions g ! q)).
               s < length (productions g)"
    unfolding len All_less_Suc by (simp add: f0 f1)
  have sel: "selectProductions g = [0, Suc 0]"
    by (simp add: selectProductions_def findToken_def len f0 f1 tm tk)
  have ip: "findProd (productions g) ''instance'' = None"
    by (simp add: findProd_def len f0 f1)
  have "\<exists>g'. printCppClasses g = Inr g' \<and> classesPrinted g' = [Suc 0, 0]"
    by (simp add: printCppClasses_def printFrom_def Let_def sel ip modify_nth len f0 f1)
  then obtain g' where pr: "printCppClasses g = Inr g'"
    and out: "classesPrinted g' = [Suc 0, 0]" by (elim exE conjE)
  have "\<exists>h. analyse 5 cycleFile = Some (Inr h) \<and>
          map ?F (productions h) =
            [(''x'', 0, 0, False, [Suc 0], False), (''y'', 0, 0, False, [0], False)] \<and>
          terminalNames h = [] \<and> tokenNames h = (\<lambda>row. [])"
    by (simp add: cycleFile_def eval_main_defs eval_defs eval_opt_defs)
  then obtain h where runh: "analyse 5 cycleFile = Some (Inr h)"
    and evh: "map ?F (productions h) =
            [(''x'', 0, 0, False, [Suc 0], False), (''y'', 0, 0, False, [0], False)]"
    and tmh: "terminalNames h = []" and tkh: "tokenNames h = (\<lambda>row. [])"
    by (elim exE conjE)
  from arg_cong [where f = length, OF evh]
  have lenh: "length (productions h) = Suc (Suc 0)" by simp
  from arg_cong [where f = "\<lambda>xs. xs ! 0", OF evh] lenh
  have h0: "lhs (productions h ! 0) = ''x''" "isList (productions h ! 0) = 0"
    "isOptional (productions h ! 0) = 0" "\<not> isInstance (productions h ! 0)"
    "subtypeOf (productions h ! 0) = [Suc 0]" "\<not> wasPrinted (productions h ! 0)"
    by simp_all
  from arg_cong [where f = "\<lambda>xs. xs ! Suc 0", OF evh] lenh
  have h1: "lhs (productions h ! Suc 0) = ''y''" "isList (productions h ! Suc 0) = 0"
    "isOptional (productions h ! Suc 0) = 0" "\<not> isInstance (productions h ! Suc 0)"
    "subtypeOf (productions h ! Suc 0) = [0]" "\<not> wasPrinted (productions h ! Suc 0)"
    by simp_all
  have inith: "\<forall>q<length (productions h). \<not> wasPrinted (productions h ! q)"
    unfolding lenh All_less_Suc by (simp add: h0 h1)
  have wfh: "\<forall>q<length (productions h). \<forall>s\<in>set (subtypeOf (productions h ! q)).
               s < length (productions h)"
    unfolding lenh All_less_Suc by (simp add: h0 h1)
  have selh: "selectProductions h = [0, Suc 0]"
    by (simp add: selectProductions_def findToken_def lenh h0 h1 tmh tkh)
  have loop0: "printLoop 0 (findProd (productions h) ''instance'') (selectProductions h)
      (productions h, [], 0) = Inr (productions h, [], 0)" by simp
  have pass: "printPass (findProd (productions h) ''instance'') (selectProductions h)
      (productions h, [], 0) = Inr (productions h, [], 0)"
    by (simp add: selh h0 h1)
  have stuck: "0 \<le> length (selectProductions h) \<and>
      (\<exists>prd\<in>set (selectProductions h). prd \<notin> set []) \<and>
      (\<exists>st' out'. printPass (findProd (productions h) ''instance'') (selectProductions h)
                     (productions h, [], 0) = Inr (st', out', 0))"
  proof (intro conjI)
    show "0 \<le> length (selectProductions h)" by simp
    show "\<exists>prd\<in>set (selectProductions h). prd \<notin> set []"
      by (rule bexI [where x = 0]) (simp_all add: selh)
    show "\<exists>st' out'. printPass (findProd (productions h) ''instance'') (selectProductions h)
                     (productions h, [], 0) = Inr (st', out', 0)"
      by (intro exI) (rule pass)
  qed
  from printCppClasses_supertypes_first [OF inith wfh, THEN conjunct1, rule_format, OF loop0,
      THEN conjunct2, THEN conjunct2, THEN conjunct2, THEN conjunct2] stuck
  have cyc: "printCppClasses h = Inl LoopInProductions" by (rule mp)
  from printCppClasses_supertypes_first [OF init wf, THEN conjunct2, rule_format, OF pr]
  have "distinct (classesPrinted g')" by simp
  with run runh f0(5) pr out cyc show ?thesis by simp
qed

subsection \<open>Attribute names of a production with no supertype (C3)\<close>

text \<open>
  C3 on \<open>rootOverrideFile\<close>. After findMyAtts the attNames of \<open>p\<close> and of \<open>q\<close> are the
  names written after the second colon. After the passes of main up to findMyExps,
  \<open>q\<close>, which findAttNamesOne reaches as a subtype of \<open>s\<close>, still has these names, and
  \<open>p\<close>, which has no supertype, has them followed by its own attribute names again.
\<close>

theorem findAttNamesAll_root_override:
  "map attNames (productions (projr (the
       (runPasses 5 rootOverrideFile [Parse, RefineSpelling, ReadOwnAtts] emptyGlobals))))
     = [[''a'', ''b''], [], [], [''a'', ''b'']] \<and>
   map lhs (productions (projr (the (analyse 5 rootOverrideFile))))
     = [''p'', ''x'', ''s'', ''q''] \<and>
   map subtypeOf (productions (projr (the (analyse 5 rootOverrideFile))))
     = [[], [], [], [2]] \<and>
   map myAtts (productions (projr (the (analyse 5 rootOverrideFile))))
     = [[''a'', ''b''], [], [''a''], [''b'']] \<and>
   map attNames (productions (projr (the (analyse 5 rootOverrideFile))))
     = [[''a'', ''b'', ''a'', ''b''], [], [''a''], [''a'', ''b'']]"
proof -
  have first: "map attNames (productions (projr (the
       (runPasses 5 rootOverrideFile [Parse, RefineSpelling, ReadOwnAtts] emptyGlobals))))
     = [[''a'', ''b''], [], [], [''a'', ''b'']]"
    by (simp add: rootOverrideFile_def eval_main_defs eval_defs eval_opt_defs)
  have "\<exists>g. analyse 5 rootOverrideFile = Some (Inr g) \<and>
      map (\<lambda>p. (lhs p, subtypeOf p, myAtts p, attNames p)) (productions g)
      = [(''p'', [], [''a'', ''b''], [''a'', ''b'', ''a'', ''b'']),
         (''x'', [], [], []),
         (''s'', [], [''a''], [''a'']),
         (''q'', [2], [''b''], [''a'', ''b''])]"
    by (simp add: rootOverrideFile_def eval_main_defs eval_defs eval_opt_defs)
  then obtain g where run: "analyse 5 rootOverrideFile = Some (Inr g)"
    and ev: "map (\<lambda>p. (lhs p, subtypeOf p, myAtts p, attNames p)) (productions g)
      = [(''p'', [], [''a'', ''b''], [''a'', ''b'', ''a'', ''b'']),
         (''x'', [], [], []),
         (''s'', [], [''a''], [''a'']),
         (''q'', [2], [''b''], [''a'', ''b''])]" by (elim exE conjE)
  from arg_cong [where f = "map fst", OF ev]
  have a: "map lhs (productions g) = [''p'', ''x'', ''s'', ''q'']" by (simp add: comp_def)
  from arg_cong [where f = "map (\<lambda>t. fst (snd t))", OF ev]
  have b: "map subtypeOf (productions g) = [[], [], [], [2]]" by (simp add: comp_def)
  from arg_cong [where f = "map (\<lambda>t. fst (snd (snd t)))", OF ev]
  have c: "map myAtts (productions g) = [[''a'', ''b''], [], [''a''], [''b'']]"
    by (simp add: comp_def)
  from arg_cong [where f = "map (\<lambda>t. snd (snd (snd t)))", OF ev]
  have d: "map attNames (productions g)
      = [[''a'', ''b'', ''a'', ''b''], [], [''a''], [''a'', ''b'']]"
    by (simp add: comp_def)
  from first run a b c d show ?thesis by simp
qed

subsection \<open>Own expressions when the expressions run out (C2)\<close>

text \<open>
  C2 on \<open>fewExpressionsFile\<close>. When findMyExps comes to \<open>q\<close>, whose attNames are
  \<open>a z b\<close> and whose own attribute is \<open>b\<close>, the loop that looks for \<open>b\<close> among the
  attNames steps past the only expression at \<open>a\<close> and reads \<open>expCell->next\<close> through the
  null pointer at \<open>z\<close>: main ends neither with a diagnostic nor with the expressions of
  \<open>q\<close> found.
\<close>

theorem findMyExps_reads_null:
  "map attNames (productions (projr (the
       (runPasses 5 fewExpressionsFile
          [Parse, RefineSpelling, ReadOwnAtts, Bind, ClassifySupertypes, Ancestors,
           BeInstance, ClassifyOptionals, FullAtts] emptyGlobals))))
     = [[''a'', ''z'', ''b''], [], [], [''a'', ''z'']] \<and>
   analyse 5 fewExpressionsFile = Some (Inl NullDereference) \<and>
   main 5 fewExpressionsFile = Some (Inl NullDereference)"
  by (simp add: fewExpressionsFile_def eval_main_defs eval_defs eval_opt_defs)

end
